theory Spec2Isabelle
  imports Main "HOL-Library.Sublist" "HOL-Library.Multiset" "HOL-Library.Word"
begin

section \<open>Strings and POSIX paths\<close>

text \<open>
  Python \<open>str\<close> values are modelled as \<open>string\<close>. The string methods the daemon uses
  are \<open>startswith\<close>, \<open>endswith\<close>, the substring test \<open>in\<close>, \<open>lstrip('/')\<close>,
  \<open>split('/')\<close> and \<open>'/'.join\<close>.
\<close>

definition startswith :: "string \<Rightarrow> string \<Rightarrow> bool" where
  "startswith s p = prefix p s"

definition endswith :: "string \<Rightarrow> string \<Rightarrow> bool" where
  "endswith s p = suffix p s"

text \<open>\<open>str_in sub s\<close> is Python's \<open>sub in s\<close>: \<open>sub\<close> occurs in \<open>s\<close> as a contiguous run.\<close>

fun str_in :: "string \<Rightarrow> string \<Rightarrow> bool" where
  "str_in sub [] = (sub = [])"
| "str_in sub (c # cs) = (prefix sub (c # cs) \<or> str_in sub cs)"

definition lstrip :: "char \<Rightarrow> string \<Rightarrow> string" where
  "lstrip c s = dropWhile (\<lambda>x. x = c) s"

text \<open>\<open>s.split(c)\<close>: always at least one field; adjacent separators give empty fields.\<close>

fun split_sep :: "char \<Rightarrow> string \<Rightarrow> string list" where
  "split_sep c [] = [[]]"
| "split_sep c (x # xs) =
     (if x = c then [] # split_sep c xs
      else (case split_sep c xs of [] \<Rightarrow> [[x]] | w # ws \<Rightarrow> (x # w) # ws))"

fun sep_join :: "string \<Rightarrow> string list \<Rightarrow> string" where
  "sep_join s [] = []"
| "sep_join s [x] = x"
| "sep_join s (x # y # ys) = x @ s @ sep_join s (y # ys)"

datatype py_error = ValueError string

text \<open>
  \<open>posixpath.join\<close> for two arguments: an absolute second component replaces the first,
  otherwise it is appended with exactly one separator in between.
\<close>

definition path_join :: "string \<Rightarrow> string \<Rightarrow> string" where
  "path_join a b =
     (if startswith b ''/'' then b
      else if a = [] \<or> endswith a ''/'' then a @ b
      else a @ ''/'' @ b)"

text \<open>
  \<open>posixpath.normpath\<close>: the loop over the components of the path, with the list
  \<open>new_comps\<close> it builds.
\<close>

fun normpath_loop :: "bool \<Rightarrow> string list \<Rightarrow> string list \<Rightarrow> string list" where
  "normpath_loop initial_slashes [] new_comps = new_comps"
| "normpath_loop initial_slashes (c # comps) new_comps =
     (if c = [] \<or> c = ''.'' then normpath_loop initial_slashes comps new_comps
      else if c \<noteq> ''..'' \<or> (\<not> initial_slashes \<and> new_comps = [])
              \<or> (new_comps \<noteq> [] \<and> last new_comps = ''..'')
      then normpath_loop initial_slashes comps (new_comps @ [c])
      else if new_comps \<noteq> [] then normpath_loop initial_slashes comps (butlast new_comps)
      else normpath_loop initial_slashes comps new_comps)"

definition normpath :: "string \<Rightarrow> string" where
  "normpath path =
     (if path = [] then ''.''
      else
        let initial_slashes :: nat =
              (if startswith path ''/''
               then (if startswith path ''//'' \<and> \<not> startswith path ''///'' then 2 else 1)
               else 0);
            comps = normpath_loop (initial_slashes \<noteq> 0) (split_sep CHR ''/'' path) [];
            joined = replicate initial_slashes CHR ''/'' @ sep_join ''/'' comps
        in if joined = [] then ''.'' else joined)"

text \<open>\<open>posixpath.abspath\<close>; \<open>cwd\<close> is what \<open>os.getcwd()\<close> answers.\<close>

definition abspath :: "string \<Rightarrow> string \<Rightarrow> string" where
  "abspath cwd path =
     normpath (if startswith path ''/'' then path else path_join cwd path)"

text \<open>
  \<open>posixpath.relpath(path, start)\<close>: raises \<open>ValueError\<close> on the empty path; otherwise
  both arguments are made absolute, their common leading components are dropped and one
  \<open>..\<close> is emitted for every remaining component of \<open>start\<close>.
\<close>

definition relpath :: "string \<Rightarrow> string \<Rightarrow> string \<Rightarrow> py_error + string" where
  "relpath cwd path start =
     (if path = [] then Inl (ValueError ''no path specified'')
      else
        let start_list = filter (\<lambda>x. x \<noteq> []) (split_sep CHR ''/'' (abspath cwd start));
            path_list = filter (\<lambda>x. x \<noteq> []) (split_sep CHR ''/'' (abspath cwd path));
            i = length (longest_common_prefix start_list path_list);
            rel_list = replicate (length start_list - i) ''..'' @ drop i path_list
        in if rel_list = [] then Inr ''.'' else Inr (sep_join ''/'' rel_list))"

section \<open>Configuration and remote addressing\<close>

text \<open>
  The three module-level bindings \<open>LOCAL_FOLDER\<close>, \<open>GOOGLE_DRIVE_FOLDER\<close> and
  \<open>DRIVE_USER\<close> that \<open>load_config\<close> returns, bound once at start-up.
\<close>

record config =
  LOCAL_FOLDER :: string
  GOOGLE_DRIVE_FOLDER :: string
  DRIVE_USER :: string

definition GOOGLE_DRIVE_PREFIX :: string where
  "GOOGLE_DRIVE_PREFIX = ''google-drive://''"

text \<open>
  Lines 150--151 of \<open>sync_file\<close>:
  \<^verbatim>\<open>rel_path = path.relpath(file_path, LOCAL_FOLDER)\<close>,
  \<^verbatim>\<open>drive_file_path = f"{GOOGLE_DRIVE_PREFIX}{DRIVE_USER}/{path.join(GOOGLE_DRIVE_FOLDER, rel_path).lstrip('/')}"\<close>.
\<close>

definition drive_file_path :: "config \<Rightarrow> string \<Rightarrow> string \<Rightarrow> py_error + string" where
  "drive_file_path cfg cwd file_path =
     (case relpath cwd file_path (LOCAL_FOLDER cfg) of
        Inl e \<Rightarrow> Inl e
      | Inr rel_path \<Rightarrow>
          Inr (GOOGLE_DRIVE_PREFIX @ DRIVE_USER cfg @ ''/'' @
               lstrip CHR ''/'' (path_join (GOOGLE_DRIVE_FOLDER cfg) rel_path)))"

section \<open>Content digests\<close>

type_synonym bytes = "8 word list"

text \<open>
  \<open>hashlib.sha256\<close> is a library function: the digest of a byte string is taken from the
  platform (field \<open>sha256\<close> of the world below), and a hasher object is represented by
  the bytes fed to it so far, since repeated \<open>update\<close> calls are equivalent to one call on
  the concatenation. \<open>hexdigest\<close> writes the 256-bit digest as 64 lower-case hex digits.
\<close>

definition hex_digit :: "nat \<Rightarrow> char" where
  "hex_digit n = ''0123456789abcdef'' ! (n mod 16)"

definition hexdigest :: "256 word \<Rightarrow> string" where
  "hexdigest d = map (\<lambda>i. hex_digit (unat (take_bit 4 (drop_bit (4 * (63 - i)) d)))) [0..<64]"

text \<open>
  The read loop of \<open>get_remote_file_hash\<close> (lines 114--118): \<open>stream.read_bytes(4096)\<close>
  until a buffer of size 0 comes back.
\<close>

function remote_hash_loop :: "bytes \<Rightarrow> bytes \<Rightarrow> bytes" where
  "remote_hash_loop stream hasher =
     (let buffer = take 4096 stream
      in if length buffer = 0 then hasher
         else remote_hash_loop (drop 4096 stream) (hasher @ buffer))"
  by pat_completeness auto
termination
  by (relation "measure (\<lambda>(stream, hasher). length stream)") auto

text \<open>The read loop of \<open>compute_file_hash\<close> (lines 132--133): \<open>while chunk := f.read(4096)\<close>.\<close>

function local_hash_loop :: "bytes \<Rightarrow> bytes \<Rightarrow> bytes" where
  "local_hash_loop f hasher =
     (let chunk = take 4096 f
      in if chunk \<noteq> [] then local_hash_loop (drop 4096 f) (hasher @ chunk)
         else hasher)"
  by pat_completeness auto
termination
  by (relation "measure (\<lambda>(f, hasher). length f)") auto

section \<open>The platform: volumes, the remote store, the local file system\<close>

text \<open>
  What the platform does with a mount request (\<open>volume.mount\<close> followed by
  \<open>loop.run()\<close>): the call itself raises (line 101), or the completion callback runs and
  \<open>mount_finish\<close> returns true, returns false or raises, or the callback never runs and
  \<open>loop.run()\<close> never returns.
\<close>

datatype mount_resolution =
    Mount_raises string
  | Finish_true
  | Finish_false
  | Finish_raises string
  | Never_resolves

text \<open>
  A volume of \<open>Gio.VolumeMonitor.get_volumes()\<close>: its identifiers (kind and value),
  how a mount request on it resolves, and the root URI of the mount a successful request
  creates.
\<close>

record volume =
  identifiers :: "(string \<times> string) list"
  on_mount :: mount_resolution
  mount_root :: string

text \<open>The calls the daemon makes to the platform.\<close>

datatype io_call =
    Get_mounts
  | Get_volumes
  | Volume_mount volume
  | Main_loop_run
  | Query_exists string
  | Make_directory_with_parents string
  | Read_remote string
  | Open_local string
  | Delete string
  | Copy string string

text \<open>The records the daemon writes to its log, one constructor per logging call.\<close>

datatype log_record =
    Attempting_to_mount
  | Mounted_successfully
  | Failed_to_mount
  | Failed_to_mount_exc string
  | No_volume_found
  | Failed_remote_hash string
  | Failed_local_hash string
  | Drive_not_found
  | Mounting_failed_skipping_sync
  | Created_parent_directory string
  | Failed_to_create_parent string string
  | Skipping_no_changes string
  | Deleted_existing_file string
  | Failed_to_delete string string
  | Failed_to_copy string string string
  | Synced string string
  | Performing_initial_sync
  | Mounting_failed_skipping_initial_sync
  | Initial_sync_complete

datatype level = INFO | WARNING | ERROR

fun rendered :: "log_record \<Rightarrow> level \<times> string" where
  "rendered Attempting_to_mount = (INFO, ''Attempting to mount Google Drive...'')"
| "rendered Mounted_successfully = (INFO, ''Google Drive mounted successfully.'')"
| "rendered Failed_to_mount = (ERROR, ''Failed to mount Google Drive.'')"
| "rendered (Failed_to_mount_exc e) = (ERROR, ''Failed to mount Google Drive: '' @ e)"
| "rendered No_volume_found = (WARNING, ''No Google Drive volume found to mount.'')"
| "rendered (Failed_remote_hash e) = (ERROR, ''Failed to compute remote file hash: '' @ e)"
| "rendered (Failed_local_hash e) = (ERROR, ''Failed to compute local file hash: '' @ e)"
| "rendered Drive_not_found = (INFO, ''Google Drive not found. Attempting to mount...'')"
| "rendered Mounting_failed_skipping_sync = (WARNING, ''Mounting failed. Skipping sync.'')"
| "rendered (Created_parent_directory u) = (INFO, ''Created parent directory: '' @ u)"
| "rendered (Failed_to_create_parent u e) =
     (WARNING, ''Failed to create parent directory '' @ u @ '': '' @ e)"
| "rendered (Skipping_no_changes p) = (INFO, ''Skipping '' @ p @ '': No changes detected.'')"
| "rendered (Deleted_existing_file u) = (INFO, ''Deleted existing file: '' @ u)"
| "rendered (Failed_to_delete u e) =
     (ERROR, ''Failed to delete existing file '' @ u @ '': '' @ e)"
| "rendered (Failed_to_copy p u e) =
     (WARNING, ''Failed to copy '' @ p @ '' to '' @ u @ '': '' @ e)"
| "rendered (Synced p u) = (INFO, ''Synced: '' @ p @ '' -> '' @ u)"
| "rendered Performing_initial_sync = (INFO, ''Performing initial sync of all files...'')"
| "rendered Mounting_failed_skipping_initial_sync =
     (WARNING, ''Mounting failed. Skipping initial sync.'')"
| "rendered Initial_sync_complete = (INFO, ''Initial sync complete.'')"

text \<open>
  The trace of a run, oldest event first: every platform call, every log record, and the
  entry into \<open>sync_file\<close> with its argument.
\<close>

datatype event =
    Call io_call
  | Log log_record
  | Enter_sync_file string

text \<open>
  The local tree as \<open>os.walk\<close> sees it: an entry is a directory with its entries in
  listing order, or something that is not a directory.
\<close>

datatype fsnode = File | Dir "(string \<times> fsnode) list"

text \<open>
  The world the daemon runs in. \<open>faults\<close> names the calls that the platform fails, with
  the text of the exception; \<open>trace\<close> only grows and is never read by the daemon. The
  world changes only through the daemon's own calls.
\<close>

record world =
  cwd :: string
  mounts :: "string list"
  volumes :: "volume list"
  remote_dirs :: "string set"
  remote_files :: "string \<rightharpoonup> bytes"
  local_files :: "string \<rightharpoonup> bytes"
  local_tree :: fsnode
  sha256 :: "bytes \<Rightarrow> 256 word"
  faults :: "io_call \<rightharpoonup> string"
  trace :: "event list"

definition emit :: "event \<Rightarrow> world \<Rightarrow> world" where
  "emit e w = w\<lparr>trace := trace w @ [e]\<rparr>"

text \<open>How a call of a daemon function ends: it returns, it raises, or it blocks for ever.\<close>

datatype run = Returned world | Raised py_error world | Blocked world

subsection \<open>Gio files\<close>

text \<open>
  \<open>Gio.File.get_parent\<close> on a URI \<open>scheme://authority/p1/.../pn\<close>: the URI without its
  last path component, and nothing for a URI without a path component.
\<close>

definition get_parent :: "string \<Rightarrow> string option" where
  "get_parent uri =
     (let comps = split_sep CHR ''/'' uri
      in if length comps \<le> 3 then None else Some (sep_join ''/'' (butlast comps)))"

definition uri_ancestors :: "string \<Rightarrow> string list" where
  "uri_ancestors uri =
     (let comps = split_sep CHR ''/'' uri
      in map (\<lambda>n. sep_join ''/'' (take n comps)) [3..<length comps])"

definition query_exists :: "string \<Rightarrow> world \<Rightarrow> bool \<times> world" where
  "query_exists uri w =
     (uri \<in> remote_dirs w \<or> remote_files w uri \<noteq> None, emit (Call (Query_exists uri)) w)"

text \<open>
  The calls below answer \<open>Some e\<close> (or \<open>Inl e\<close>) when they raise an exception with
  text \<open>e\<close>.
\<close>

definition make_directory_with_parents :: "string \<Rightarrow> world \<Rightarrow> string option \<times> world" where
  "make_directory_with_parents uri w =
     (let w' = emit (Call (Make_directory_with_parents uri)) w
      in case faults w (Make_directory_with_parents uri) of
           Some e \<Rightarrow> (Some e, w')
         | None \<Rightarrow>
             if uri \<in> remote_dirs w \<or> remote_files w uri \<noteq> None then (Some ''exists'', w')
             else (None, w'\<lparr>remote_dirs := insert uri (remote_dirs w \<union> set (uri_ancestors uri))\<rparr>))"

definition read_remote :: "string \<Rightarrow> world \<Rightarrow> (string + bytes) \<times> world" where
  "read_remote uri w =
     (let w' = emit (Call (Read_remote uri)) w
      in case faults w (Read_remote uri) of
           Some e \<Rightarrow> (Inl e, w')
         | None \<Rightarrow>
             (case remote_files w uri of
                None \<Rightarrow> (Inl ''not a readable file'', w')
              | Some content \<Rightarrow> (Inr content, w')))"

definition open_local :: "string \<Rightarrow> world \<Rightarrow> (string + bytes) \<times> world" where
  "open_local file_path w =
     (let w' = emit (Call (Open_local file_path)) w
      in case faults w (Open_local file_path) of
           Some e \<Rightarrow> (Inl e, w')
         | None \<Rightarrow>
             (case local_files w file_path of
                None \<Rightarrow> (Inl ''no such file'', w')
              | Some content \<Rightarrow> (Inr content, w')))"

definition delete :: "string \<Rightarrow> world \<Rightarrow> string option \<times> world" where
  "delete uri w =
     (let w' = emit (Call (Delete uri)) w
      in case faults w (Delete uri) of
           Some e \<Rightarrow> (Some e, w')
         | None \<Rightarrow>
             if uri \<in> remote_dirs w \<or> remote_files w uri \<noteq> None
             then (None, w'\<lparr>remote_dirs := remote_dirs w - {uri},
                             remote_files := (remote_files w)(uri := None)\<rparr>)
             else (Some ''not found'', w'))"

text \<open>\<open>src_file.copy(dest_file, Gio.FileCopyFlags.OVERWRITE)\<close>, atomic from the daemon's side.\<close>

definition copy :: "string \<Rightarrow> string \<Rightarrow> world \<Rightarrow> string option \<times> world" where
  "copy file_path uri w =
     (let w' = emit (Call (Copy file_path uri)) w
      in case faults w (Copy file_path uri) of
           Some e \<Rightarrow> (Some e, w')
         | None \<Rightarrow>
             (case local_files w file_path of
                None \<Rightarrow> (Some ''no such file'', w')
              | Some content \<Rightarrow>
                  if uri \<in> remote_dirs w then (Some ''is a directory'', w')
                  else (None, w'\<lparr>remote_files := (remote_files w)(uri \<mapsto> content)\<rparr>)))"

section \<open>The daemon\<close>

subsection \<open>\<open>is_drive_available\<close> (lines 50--63)\<close>

fun is_drive_available_loop :: "config \<Rightarrow> string list \<Rightarrow> bool" where
  "is_drive_available_loop cfg [] = False"
| "is_drive_available_loop cfg (mount_uri # rest) =
     (if startswith mount_uri GOOGLE_DRIVE_PREFIX \<and> str_in (DRIVE_USER cfg) mount_uri then True
      else is_drive_available_loop cfg rest)"

definition is_drive_available :: "config \<Rightarrow> world \<Rightarrow> bool \<times> world" where
  "is_drive_available cfg w =
     (is_drive_available_loop cfg (mounts w), emit (Call Get_mounts) w)"

subsection \<open>\<open>mount_google_drive\<close> (lines 66--105)\<close>

text \<open>
  Lines 95--103 with the callback \<open>on_mount_done\<close> (lines 79--91): the mount request on
  one volume and the wait for its callback.
\<close>

definition request_mount :: "volume \<Rightarrow> world \<Rightarrow> run" where
  "request_mount volume w =
     (let w1 = emit (Call (Volume_mount volume)) w
      in case on_mount volume of
           Mount_raises e \<Rightarrow> Returned (emit (Log (Failed_to_mount_exc e)) w1)
         | Finish_true \<Rightarrow>
             Returned (emit (Log Mounted_successfully)
               ((emit (Call Main_loop_run) w1)\<lparr>mounts := mounts w @ [mount_root volume]\<rparr>))
         | Finish_false \<Rightarrow> Returned (emit (Log Failed_to_mount) (emit (Call Main_loop_run) w1))
         | Finish_raises e \<Rightarrow>
             Returned (emit (Log (Failed_to_mount_exc e)) (emit (Call Main_loop_run) w1))
         | Never_resolves \<Rightarrow> Blocked (emit (Call Main_loop_run) w1))"

text \<open>
  The inner loop over the identifiers of one volume (lines 77--103): \<open>Some\<close> when it
  reached a \<open>return\<close>, \<open>None\<close> when it ran to its end.
\<close>

fun mount_identifiers :: "config \<Rightarrow> volume \<Rightarrow> (string \<times> string) list \<Rightarrow> world \<Rightarrow> run option" where
  "mount_identifiers cfg volume [] w = None"
| "mount_identifiers cfg volume ((identifier, identifier_value) # ids) w =
     (if startswith identifier_value GOOGLE_DRIVE_PREFIX \<and> str_in (DRIVE_USER cfg) identifier_value
      then Some (request_mount volume w)
      else mount_identifiers cfg volume ids w)"

text \<open>The outer loop over the volumes (lines 76--105).\<close>

fun mount_volumes :: "config \<Rightarrow> volume list \<Rightarrow> world \<Rightarrow> run" where
  "mount_volumes cfg [] w = Returned (emit (Log No_volume_found) w)"
| "mount_volumes cfg (volume # vs) w =
     (case mount_identifiers cfg volume (identifiers volume) w of
        Some r \<Rightarrow> r
      | None \<Rightarrow> mount_volumes cfg vs w)"

definition mount_google_drive :: "config \<Rightarrow> world \<Rightarrow> run" where
  "mount_google_drive cfg w =
     mount_volumes cfg (volumes w) (emit (Call Get_volumes) (emit (Log Attempting_to_mount) w))"

subsection \<open>\<open>get_remote_file_hash\<close> and \<open>compute_file_hash\<close> (lines 108--137)\<close>

definition get_remote_file_hash :: "string \<Rightarrow> world \<Rightarrow> string \<times> world" where
  "get_remote_file_hash dest_file w =
     (case read_remote dest_file w of
        (Inr stream, w') \<Rightarrow> (hexdigest (sha256 w (remote_hash_loop stream [])), w')
      | (Inl e, w') \<Rightarrow> ([], emit (Log (Failed_remote_hash e)) w'))"

definition compute_file_hash :: "string \<Rightarrow> world \<Rightarrow> string \<times> world" where
  "compute_file_hash file_path w =
     (case open_local file_path w of
        (Inr f, w') \<Rightarrow> (hexdigest (sha256 w (local_hash_loop f [])), w')
      | (Inl e, w') \<Rightarrow> ([], emit (Log (Failed_local_hash e)) w'))"

subsection \<open>\<open>sync_file\<close> (lines 140--193)\<close>

text \<open>Lines 188--193: the copy and the final log record.\<close>

definition sync_file_copy :: "string \<Rightarrow> string \<Rightarrow> world \<Rightarrow> run" where
  "sync_file_copy file_path dest_file w =
     (case copy file_path dest_file w of
        (Some e, w') \<Rightarrow> Returned (emit (Log (Failed_to_copy file_path dest_file e)) w')
      | (None, w') \<Rightarrow> Returned (emit (Log (Synced file_path dest_file)) w'))"

text \<open>Lines 172--186: the digest comparison and the deletion of the existing remote file.\<close>

definition sync_file_compare :: "string \<Rightarrow> string \<Rightarrow> world \<Rightarrow> run" where
  "sync_file_compare file_path dest_file w =
     (case query_exists dest_file w of
        (True, w1) \<Rightarrow>
          (case get_remote_file_hash dest_file w1 of (remote_hash, w2) \<Rightarrow>
           case compute_file_hash file_path w2 of (local_hash, w3) \<Rightarrow>
             if remote_hash \<noteq> [] \<and> remote_hash = local_hash
             then Returned (emit (Log (Skipping_no_changes file_path)) w3)
             else (case delete dest_file w3 of
                     (None, w4) \<Rightarrow>
                       sync_file_copy file_path dest_file
                         (emit (Log (Deleted_existing_file dest_file)) w4)
                   | (Some e, w4) \<Rightarrow>
                       Returned (emit (Log (Failed_to_delete dest_file e)) w4)))
      | (False, w1) \<Rightarrow> sync_file_copy file_path dest_file w1)"

text \<open>Lines 150--168: the remote target and its parent directory.\<close>

definition sync_file_target :: "config \<Rightarrow> string \<Rightarrow> world \<Rightarrow> run" where
  "sync_file_target cfg file_path w =
     (case drive_file_path cfg (cwd w) file_path of
        Inl e \<Rightarrow> Raised e w
      | Inr dest \<Rightarrow>
          (case get_parent dest of
             None \<Rightarrow> sync_file_compare file_path dest w
           | Some parent_dir \<Rightarrow>
               (case query_exists parent_dir w of
                  (True, w1) \<Rightarrow> sync_file_compare file_path dest w1
                | (False, w1) \<Rightarrow>
                    (case make_directory_with_parents parent_dir w1 of
                       (None, w2) \<Rightarrow>
                         sync_file_compare file_path dest
                           (emit (Log (Created_parent_directory parent_dir)) w2)
                     | (Some e, w2) \<Rightarrow>
                         Returned (emit (Log (Failed_to_create_parent parent_dir e)) w2)))))"

definition sync_file :: "config \<Rightarrow> string \<Rightarrow> world \<Rightarrow> run" where
  "sync_file cfg file_path w =
     (case is_drive_available cfg (emit (Enter_sync_file file_path) w) of
        (True, w1) \<Rightarrow> sync_file_target cfg file_path w1
      | (False, w1) \<Rightarrow>
          (case mount_google_drive cfg (emit (Log Drive_not_found) w1) of
             Returned w2 \<Rightarrow>
               (case is_drive_available cfg w2 of
                  (True, w3) \<Rightarrow> sync_file_target cfg file_path w3
                | (False, w3) \<Rightarrow> Returned (emit (Log Mounting_failed_skipping_sync) w3))
           | r \<Rightarrow> r))"

subsection \<open>\<open>sync_all_files\<close> (lines 196--209)\<close>

text \<open>
  \<open>os.walk(top)\<close>, top-down: for every directory the triple of its path, the names of
  its subdirectories and the names of its other entries, then the walks of the
  subdirectories in listing order. A \<open>top\<close> that is not a directory yields nothing.
\<close>

fun os_walk :: "string \<Rightarrow> fsnode \<Rightarrow> (string \<times> string list \<times> string list) list"
  and os_walk_entries :: "string \<Rightarrow> (string \<times> fsnode) list \<Rightarrow> (string \<times> string list \<times> string list) list"
where
  "os_walk dirpath File = []"
| "os_walk dirpath (Dir entries) =
     (dirpath, map fst (filter (\<lambda>(name, node). node \<noteq> File) entries),
           map fst (filter (\<lambda>(name, node). node = File) entries))
     # os_walk_entries dirpath entries"
| "os_walk_entries dirpath [] = []"
| "os_walk_entries dirpath ((name, node) # entries) =
     (if node \<noteq> File then os_walk (path_join dirpath name) node else [])
     @ os_walk_entries dirpath entries"

text \<open>The two nested \<open>for\<close> loops of lines 206--208.\<close>

fun sync_files_in :: "config \<Rightarrow> string \<Rightarrow> string list \<Rightarrow> world \<Rightarrow> run" where
  "sync_files_in cfg root [] w = Returned w"
| "sync_files_in cfg root (file # files) w =
     (case sync_file cfg (path_join root file) w of
        Returned w' \<Rightarrow> sync_files_in cfg root files w'
      | r \<Rightarrow> r)"

fun sync_walk :: "config \<Rightarrow> (string \<times> string list \<times> string list) list \<Rightarrow> world \<Rightarrow> run" where
  "sync_walk cfg [] w = Returned w"
| "sync_walk cfg ((root, dirs, files) # rest) w =
     (case sync_files_in cfg root files w of
        Returned w' \<Rightarrow> sync_walk cfg rest w'
      | r \<Rightarrow> r)"

definition sync_all_files :: "config \<Rightarrow> world \<Rightarrow> run" where
  "sync_all_files cfg w =
     (let walk_and_sync = (\<lambda>w'.
            case sync_walk cfg (os_walk (LOCAL_FOLDER cfg) (local_tree w')) w' of
              Returned w'' \<Rightarrow> Returned (emit (Log Initial_sync_complete) w'')
            | r \<Rightarrow> r)
      in case is_drive_available cfg (emit (Log Performing_initial_sync) w) of
           (True, w1) \<Rightarrow> walk_and_sync w1
         | (False, w1) \<Rightarrow>
             (case mount_google_drive cfg (emit (Log Drive_not_found) w1) of
                Returned w2 \<Rightarrow>
                  (case is_drive_available cfg w2 of
                     (True, w3) \<Rightarrow> walk_and_sync w3
                   | (False, w3) \<Rightarrow>
                       Returned (emit (Log Mounting_failed_skipping_initial_sync) w3))
              | r \<Rightarrow> r))"

section \<open>What a run shows\<close>

fun world_of :: "run \<Rightarrow> world" where
  "world_of (Returned w) = w"
| "world_of (Raised e w) = w"
| "world_of (Blocked w) = w"

text \<open>The events a call added to the trace, given the worlds before and after it.\<close>

definition emitted :: "world \<Rightarrow> world \<Rightarrow> event list" where
  "emitted w w' = drop (length (trace w)) (trace w')"

text \<open>The calls that reach the remote store.\<close>

fun remote_call :: "event \<Rightarrow> bool" where
  "remote_call (Call (Query_exists u)) = True"
| "remote_call (Call (Make_directory_with_parents u)) = True"
| "remote_call (Call (Read_remote u)) = True"
| "remote_call (Call (Delete u)) = True"
| "remote_call (Call (Copy p u)) = True"
| "remote_call e = False"

fun delete_or_copy :: "event \<Rightarrow> bool" where
  "delete_or_copy (Call (Delete u)) = True"
| "delete_or_copy (Call (Copy p u)) = True"
| "delete_or_copy e = False"

fun mount_request :: "event \<Rightarrow> bool" where
  "mount_request (Call (Volume_mount v)) = True"
| "mount_request e = False"

fun entered_files :: "event list \<Rightarrow> string list" where
  "entered_files [] = []"
| "entered_files (Enter_sync_file p # es) = p # entered_files es"
| "entered_files (e # es) = entered_files es"

text \<open>
  \<open>sync_file\<close> itself returns \<open>None\<close> on every path. The outcome of an invocation, in
  the words of the specification, is read off the events the invocation emitted: each of
  its exits writes its own last log record, and a successful copy was a replacement when
  the invocation logged the deletion of the target before it.
\<close>

datatype failure_reason = parent_dir_error | delete_error | copy_error

datatype SyncOutcome =
    skipped_no_change
  | created
  | replaced
  | skipped_no_drive
  | failed failure_reason

fun exit_outcome :: "event list \<Rightarrow> event \<Rightarrow> SyncOutcome option" where
  "exit_outcome es (Log Mounting_failed_skipping_sync) = Some skipped_no_drive"
| "exit_outcome es (Log (Failed_to_create_parent u e)) = Some (failed parent_dir_error)"
| "exit_outcome es (Log (Skipping_no_changes p)) = Some skipped_no_change"
| "exit_outcome es (Log (Failed_to_delete u e)) = Some (failed delete_error)"
| "exit_outcome es (Log (Failed_to_copy p u e)) = Some (failed copy_error)"
| "exit_outcome es (Log (Synced p u)) =
     Some (if Log (Deleted_existing_file u) \<in> set es then replaced else created)"
| "exit_outcome es e = None"

definition sync_outcome :: "event list \<Rightarrow> SyncOutcome option" where
  "sync_outcome es = (if es = [] then None else exit_outcome es (last es))"

text \<open>
  The test of lines 61 and 94 on a URI, and the first volume that \<open>mount_google_drive\<close>
  would request a mount on.
\<close>

definition is_drive_uri :: "config \<Rightarrow> string \<Rightarrow> bool" where
  "is_drive_uri cfg uri = (startswith uri GOOGLE_DRIVE_PREFIX \<and> str_in (DRIVE_USER cfg) uri)"

definition has_drive_identifier :: "config \<Rightarrow> volume \<Rightarrow> bool" where
  "has_drive_identifier cfg v = list_ex (\<lambda>(k, value). is_drive_uri cfg value) (identifiers v)"

text \<open>
  The specification's \<open>mountIfNeeded\<close>: \<open>mount_google_drive\<close> returns nothing, and both
  of its callers (lines 145--146 and 201--202) query \<open>is_drive_available\<close> right after
  it. \<open>None\<close> when the mount request never resolves.
\<close>

definition mountIfNeeded :: "config \<Rightarrow> world \<Rightarrow> (bool \<times> world) option" where
  "mountIfNeeded cfg w =
     (case mount_google_drive cfg w of
        Returned w' \<Rightarrow> Some (is_drive_available cfg w')
      | _ \<Rightarrow> None)"

text \<open>
  The regular files under a directory, from the tree alone: every entry that is not a
  directory, with the path that joins the names on the way to it.
\<close>

fun files_under :: "string \<Rightarrow> fsnode \<Rightarrow> string list"
  and files_in :: "string \<Rightarrow> (string \<times> fsnode) list \<Rightarrow> string list"
where
  "files_under path File = [path]"
| "files_under path (Dir entries) = files_in path entries"
| "files_in dirpath [] = []"
| "files_in dirpath ((name, node) # entries) =
     files_under (path_join dirpath name) node @ files_in dirpath entries"

definition regular_files :: "string \<Rightarrow> fsnode \<Rightarrow> string list" where
  "regular_files root tree = (case tree of File \<Rightarrow> [] | Dir entries \<Rightarrow> files_in root entries)"

section \<open>Auxiliary definitions for the proofs\<close>

declare remote_hash_loop.simps [simp del] local_hash_loop.simps [simp del]

text \<open>
  The events of the availability check of lines 143--148 and 199--204, with the mount
  attempt in between.
\<close>

fun gate_event :: "event \<Rightarrow> bool" where
  "gate_event (Call Get_mounts) = True"
| "gate_event (Call Get_volumes) = True"
| "gate_event (Call (Volume_mount v)) = True"
| "gate_event (Call Main_loop_run) = True"
| "gate_event (Log Drive_not_found) = True"
| "gate_event (Log Attempting_to_mount) = True"
| "gate_event (Log Mounted_successfully) = True"
| "gate_event (Log Failed_to_mount) = True"
| "gate_event (Log (Failed_to_mount_exc e)) = True"
| "gate_event (Log No_volume_found) = True"
| "gate_event e = False"

text \<open>The log records of a failed digest computation.\<close>

fun hash_failure :: "event \<Rightarrow> bool" where
  "hash_failure (Log (Failed_remote_hash e)) = True"
| "hash_failure (Log (Failed_local_hash e)) = True"
| "hash_failure e = False"

text \<open>The events of the parent-directory step of lines 161--168, short of its failure.\<close>

fun parent_event :: "event \<Rightarrow> bool" where
  "parent_event (Call (Query_exists u)) = True"
| "parent_event (Call (Make_directory_with_parents u)) = True"
| "parent_event (Log (Created_parent_directory u)) = True"
| "parent_event e = False"

subsection \<open>The example of the specification\<close>

text \<open>
  Local root \<open>/home/u/docs\<close>, remote root \<open>sync/docs\<close>, account \<open>u@example\<close>, and a
  world with the drive mounted, an empty remote store and the one local file
  \<open>/home/u/docs/a/b.txt\<close>. The digest function of the example is a stand-in: no result
  below depends on its values. \<open>synced_world\<close> is the same world once the file has been
  copied.
\<close>

definition example_config :: config where
  "example_config =
     \<lparr>LOCAL_FOLDER = ''/home/u/docs'', GOOGLE_DRIVE_FOLDER = ''sync/docs'',
      DRIVE_USER = ''u@example''\<rparr>"

definition example_world :: world where
  "example_world =
     \<lparr>cwd = ''/'', mounts = [''google-drive://u@example/''], volumes = [],
      remote_dirs = {}, remote_files = Map.empty,
      local_files = [''/home/u/docs/a/b.txt'' \<mapsto> [1, 2, 3]],
      local_tree = Dir [(''a'', Dir [(''b.txt'', File)])],
      sha256 = (\<lambda>bs. of_nat (length bs)), faults = Map.empty, trace = []\<rparr>"

definition synced_world :: world where
  "synced_world =
     example_world\<lparr>remote_dirs := {''google-drive://u@example/sync/docs/a''},
                    remote_files := [''google-drive://u@example/sync/docs/a/b.txt'' \<mapsto> [1, 2, 3]]\<rparr>"

text \<open>
  The example with no mounted drive and no volume to mount, the synced example with a
  remote file that cannot be read, and the example with a local file that cannot be
  opened for reading.
\<close>

definition unmounted_world :: world where
  "unmounted_world = example_world\<lparr>mounts := []\<rparr>"

definition unreadable_world :: world where
  "unreadable_world =
     synced_world\<lparr>faults := [Read_remote ''google-drive://u@example/sync/docs/a/b.txt'' \<mapsto> ''timed out'']\<rparr>"


text \<open>
  Volumes for the mount coordinator: one without a drive identifier, one whose mount
  fails, one whose mount succeeds and one whose mount never resolves, and worlds that
  list them.
\<close>

definition usb_volume :: volume where
  "usb_volume =
     \<lparr>identifiers = [(''unix-device'', ''/dev/sdb1''), (''uuid'', ''1234-ABCD'')],
      on_mount = Finish_true, mount_root = ''file:///media/usb''\<rparr>"

definition failing_drive_volume :: volume where
  "failing_drive_volume =
     \<lparr>identifiers = [(''class'', ''network''), (''uuid'', ''google-drive://u@example/'')],
      on_mount = Finish_false, mount_root = ''google-drive://u@example/''\<rparr>"

definition drive_volume :: volume where
  "drive_volume =
     \<lparr>identifiers = [(''uuid'', ''google-drive://u@example/'')],
      on_mount = Finish_true, mount_root = ''google-drive://u@example/''\<rparr>"

definition hanging_volume :: volume where
  "hanging_volume =
     \<lparr>identifiers = [(''uuid'', ''google-drive://u@example/'')],
      on_mount = Never_resolves, mount_root = ''google-drive://u@example/''\<rparr>"

definition mountable_world :: world where
  "mountable_world = example_world\<lparr>mounts := [], volumes := [usb_volume, drive_volume]\<rparr>"

definition three_volumes_world :: world where
  "three_volumes_world =
     example_world\<lparr>mounts := [], volumes := [usb_volume, failing_drive_volume, drive_volume]\<rparr>"

definition hanging_world :: world where
  "hanging_world = example_world\<lparr>mounts := [], volumes := [usb_volume, hanging_volume]\<rparr>"

text \<open>The paths \<open>sync_all_files\<close> passes to \<open>sync_file\<close>, in the order of the walk.\<close>

definition walk_files :: "(string \<times> string list \<times> string list) list \<Rightarrow> string list" where
  "walk_files walk = concat (map (\<lambda>(root, dirs, files). map (path_join root) files) walk)"





section \<open>Strings and paths: basic facts\<close>

lemma split_sep_nonempty: "split_sep c s \<noteq> []"
  by (induction s) (auto split: list.splits)

lemma split_sep_no_sep: "w \<in> set (split_sep c s) \<Longrightarrow> c \<notin> set w"
proof (induction s arbitrary: w)
  case Nil
  then show ?case by simp
next
  case (Cons x xs)
  show ?case
  proof (cases "x = c")
    case True
    with Cons show ?thesis by auto
  next
    case False
    obtain v vs where r: "split_sep c xs = v # vs"
      using split_sep_nonempty [of c xs] by (cases "split_sep c xs") auto
    with Cons.prems False have "w = x # v \<or> w \<in> set vs" by auto
    then show ?thesis
    proof
      assume "w = x # v"
      moreover have "c \<notin> set v" using Cons.IH [of v] r by simp
      ultimately show ?thesis using False by auto
    next
      assume "w \<in> set vs"
      then show ?thesis using Cons.IH [of w] r by simp
    qed
  qed
qed

lemma sep_join_Cons_head: "x \<noteq> [] \<Longrightarrow> hd (sep_join s (x # xs)) = hd x"
  by (cases xs) auto

lemma sep_join_Cons_nonempty: "x \<noteq> [] \<Longrightarrow> sep_join s (x # xs) \<noteq> []"
  by (cases xs) auto

lemma relpath_no_leading_sep:
  assumes "relpath wd p start = Inr rel"
  shows "rel \<noteq> [] \<and> hd rel \<noteq> CHR ''/''"
proof -
  define start_list where "start_list = filter (\<lambda>x. x \<noteq> []) (split_sep CHR ''/'' (abspath wd start))"
  define path_list where "path_list = filter (\<lambda>x. x \<noteq> []) (split_sep CHR ''/'' (abspath wd p))"
  define i where "i = length (longest_common_prefix start_list path_list)"
  define rel_list where "rel_list = replicate (length start_list - i) ''..'' @ drop i path_list"
  have rel: "rel = (if rel_list = [] then ''.'' else sep_join ''/'' rel_list)"
    using assms
    by (auto simp: relpath_def Let_def start_list_def path_list_def i_def rel_list_def
             split: if_splits)
  show ?thesis
  proof (cases rel_list)
    case Nil
    with rel show ?thesis by simp
  next
    case (Cons x xs)
    have "x \<in> set rel_list" using Cons by simp
    then have "x = ''..'' \<or> x \<in> set path_list"
      by (auto simp: rel_list_def dest: in_set_dropD)
    then have x: "x \<noteq> [] \<and> CHR ''/'' \<notin> set x"
      by (auto simp: path_list_def dest: split_sep_no_sep)
    then have "hd x \<noteq> CHR ''/''" by (cases x) auto
    with x Cons rel show ?thesis
      by (simp add: sep_join_Cons_head sep_join_Cons_nonempty)
  qed
qed

lemma relpath_nonempty_path: "p \<noteq> [] \<Longrightarrow> \<exists>rel. relpath wd p start = Inr rel"
  by (simp add: relpath_def Let_def)

lemma lstrip_no_leading: "s \<noteq> [] \<Longrightarrow> hd s \<noteq> c \<Longrightarrow> lstrip c s = s"
  by (cases s) (auto simp: lstrip_def)

lemma lstrip_append:
  "lstrip c (a @ b) = (if \<forall>x\<in>set a. x = c then lstrip c b else lstrip c a @ b)"
  by (auto simp: lstrip_def dropWhile_append)

lemma endswith_sep: "endswith a [c] \<longleftrightarrow> a \<noteq> [] \<and> last a = c"
  by (cases a rule: rev_cases) (auto simp: endswith_def suffix_def)

lemma startswith_sep: "startswith a [c] \<longleftrightarrow> a \<noteq> [] \<and> hd a = c"
  by (cases a) (auto simp: startswith_def)

lemma lstrip_path_join:
  assumes "rel \<noteq> []" "hd rel \<noteq> CHR ''/''"
  shows "lstrip CHR ''/'' (path_join root rel) =
           lstrip CHR ''/'' root @ (if root = [] \<or> last root = CHR ''/'' then [] else ''/'') @ rel"
proof -
  have nb: "\<not> startswith rel ''/''" using assms by (simp add: startswith_sep)
  have lr: "lstrip CHR ''/'' rel = rel" using assms by (rule lstrip_no_leading)
  show ?thesis
  proof (cases "root = [] \<or> last root = CHR ''/''")
    case True
    then have pj: "path_join root rel = root @ rel"
      using nb by (auto simp: path_join_def endswith_sep)
    show ?thesis
    proof (cases "\<forall>x\<in>set root. x = CHR ''/''")
      case all: True
      then have "lstrip CHR ''/'' root = []" by (simp add: lstrip_def)
      with all True pj lr show ?thesis by (simp add: lstrip_append)
    next
      case False
      with True pj show ?thesis by (auto simp: lstrip_append)
    qed
  next
    case False
    then have pj: "path_join root rel = root @ ''/'' @ rel"
      using nb by (auto simp: path_join_def endswith_sep)
    from False have "last root \<in> set root" "last root \<noteq> CHR ''/''" by auto
    then have "\<not> (\<forall>x\<in>set root. x = CHR ''/'')" by blast
    with False pj show ?thesis by (auto simp: lstrip_append)
  qed
qed

section \<open>Remote addressing\<close>

text \<open>The shape of the remote target of lines 150--151.\<close>

lemma drive_file_path_shape:
  assumes "file_path \<noteq> []"
  shows "\<exists>rel. relpath wd file_path (LOCAL_FOLDER cfg) = Inr rel \<and> rel \<noteq> [] \<and> hd rel \<noteq> CHR ''/'' \<and>
           drive_file_path cfg wd file_path =
             Inr (GOOGLE_DRIVE_PREFIX @ DRIVE_USER cfg @ ''/'' @
                  lstrip CHR ''/'' (GOOGLE_DRIVE_FOLDER cfg) @
                  (if GOOGLE_DRIVE_FOLDER cfg = [] \<or> last (GOOGLE_DRIVE_FOLDER cfg) = CHR ''/''
                   then [] else ''/'') @ rel) \<and>
           (GOOGLE_DRIVE_FOLDER cfg \<noteq> [] \<and> hd (GOOGLE_DRIVE_FOLDER cfg) \<noteq> CHR ''/'' \<and>
            last (GOOGLE_DRIVE_FOLDER cfg) \<noteq> CHR ''/'' \<longrightarrow>
            drive_file_path cfg wd file_path =
              Inr (GOOGLE_DRIVE_PREFIX @ DRIVE_USER cfg @ ''/'' @ GOOGLE_DRIVE_FOLDER cfg @ ''/'' @ rel))"
proof -
  obtain rel where rel: "relpath wd file_path (LOCAL_FOLDER cfg) = Inr rel"
    using relpath_nonempty_path [OF assms] by blast
  have nl: "rel \<noteq> [] \<and> hd rel \<noteq> CHR ''/''" using relpath_no_leading_sep [OF rel] .
  have d: "drive_file_path cfg wd file_path =
             Inr (GOOGLE_DRIVE_PREFIX @ DRIVE_USER cfg @ ''/'' @
                  lstrip CHR ''/'' (GOOGLE_DRIVE_FOLDER cfg) @
                  (if GOOGLE_DRIVE_FOLDER cfg = [] \<or> last (GOOGLE_DRIVE_FOLDER cfg) = CHR ''/''
                   then [] else ''/'') @ rel)"
    using nl rel by (simp add: drive_file_path_def lstrip_path_join)
  have "lstrip CHR ''/'' (GOOGLE_DRIVE_FOLDER cfg) = GOOGLE_DRIVE_FOLDER cfg"
    if "GOOGLE_DRIVE_FOLDER cfg \<noteq> []" "hd (GOOGLE_DRIVE_FOLDER cfg) \<noteq> CHR ''/''"
    using that by (rule lstrip_no_leading)
  with d rel nl show ?thesis by auto
qed

section \<open>Digests and the mount coordinator\<close>

lemma remote_hash_loop_all: "remote_hash_loop stream hasher = hasher @ stream"
proof (induction stream hasher rule: remote_hash_loop.induct)
  case (1 stream hasher)
  show ?case
  proof (cases "take 4096 stream = []")
    case True
    then have "stream = []" by simp
    then show ?thesis by (subst remote_hash_loop.simps) simp
  next
    case False
    then have "remote_hash_loop stream hasher
                 = remote_hash_loop (drop 4096 stream) (hasher @ take 4096 stream)"
      by (subst remote_hash_loop.simps) (simp add: Let_def)
    also have "\<dots> = (hasher @ take 4096 stream) @ drop 4096 stream"
      using False 1 by simp
    finally show ?thesis by simp
  qed
qed

lemma local_hash_loop_all: "local_hash_loop f hasher = hasher @ f"
proof (induction f hasher rule: local_hash_loop.induct)
  case (1 f hasher)
  show ?case
  proof (cases "take 4096 f = []")
    case True
    then have "f = []" by simp
    then show ?thesis by (subst local_hash_loop.simps) simp
  next
    case False
    then have "local_hash_loop f hasher = local_hash_loop (drop 4096 f) (hasher @ take 4096 f)"
      by (subst local_hash_loop.simps) (simp add: Let_def)
    also have "\<dots> = (hasher @ take 4096 f) @ drop 4096 f"
      using False 1 by simp
    finally show ?thesis by simp
  qed
qed

lemma length_hexdigest: "length (hexdigest d) = 64"
  by (simp add: hexdigest_def)

lemma hexdigest_nonempty: "hexdigest d \<noteq> []"
  using length_hexdigest [of d] by auto

lemma is_drive_available_loop_ex:
  "is_drive_available_loop cfg ms = list_ex (is_drive_uri cfg) ms"
  by (induction ms) (auto simp: is_drive_uri_def)

lemma mount_identifiers_closed:
  "mount_identifiers cfg v ids w =
     (if list_ex (\<lambda>(k, value). is_drive_uri cfg value) ids then Some (request_mount v w) else None)"
  by (induction cfg v ids w rule: mount_identifiers.induct) (simp_all add: is_drive_uri_def)

lemma mount_volumes_closed:
  "mount_volumes cfg vs w =
     (case find (has_drive_identifier cfg) vs of
        None \<Rightarrow> Returned (emit (Log No_volume_found) w)
      | Some v \<Rightarrow> request_mount v w)"
  by (induction vs) (auto simp: mount_identifiers_closed has_drive_identifier_def)

lemma emitted_append: "trace w' = trace w @ es \<Longrightarrow> emitted w w' = es"
  by (simp add: emitted_def)

lemma trace_emit [simp]: "trace (emit e w) = trace w @ [e]"
  by (simp add: emit_def)

lemma emit_fields [simp]:
  "mounts (emit e w) = mounts w" "volumes (emit e w) = volumes w"
  "remote_dirs (emit e w) = remote_dirs w" "remote_files (emit e w) = remote_files w"
  "local_files (emit e w) = local_files w" "local_tree (emit e w) = local_tree w"
  "sha256 (emit e w) = sha256 w" "faults (emit e w) = faults w" "cwd (emit e w) = cwd w"
  by (simp_all add: emit_def)

lemma request_mount_trace:
  "trace (world_of (request_mount v w)) =
     trace w @ Call (Volume_mount v) #
       (case on_mount v of
          Mount_raises e \<Rightarrow> [Log (Failed_to_mount_exc e)]
        | Finish_true \<Rightarrow> [Call Main_loop_run, Log Mounted_successfully]
        | Finish_false \<Rightarrow> [Call Main_loop_run, Log Failed_to_mount]
        | Finish_raises e \<Rightarrow> [Call Main_loop_run, Log (Failed_to_mount_exc e)]
        | Never_resolves \<Rightarrow> [Call Main_loop_run])"
  by (simp add: request_mount_def Let_def split: mount_resolution.splits)

lemma mount_google_drive_trace:
  "trace (world_of (mount_google_drive cfg w)) =
     trace w @ Log Attempting_to_mount # Call Get_volumes #
       (case find (has_drive_identifier cfg) (volumes w) of
          None \<Rightarrow> [Log No_volume_found]
        | Some v \<Rightarrow> Call (Volume_mount v) #
            (case on_mount v of
               Mount_raises e \<Rightarrow> [Log (Failed_to_mount_exc e)]
             | Finish_true \<Rightarrow> [Call Main_loop_run, Log Mounted_successfully]
             | Finish_false \<Rightarrow> [Call Main_loop_run, Log Failed_to_mount]
             | Finish_raises e \<Rightarrow> [Call Main_loop_run, Log (Failed_to_mount_exc e)]
             | Never_resolves \<Rightarrow> [Call Main_loop_run]))"
  by (simp add: mount_google_drive_def mount_volumes_closed request_mount_trace
           split: option.splits)

lemma mount_google_drive_returns:
  "(\<exists>w'. mount_google_drive cfg w = Returned w') \<longleftrightarrow>
     (\<forall>v. find (has_drive_identifier cfg) (volumes w) = Some v \<longrightarrow> on_mount v \<noteq> Never_resolves)"
  by (auto simp: mount_google_drive_def mount_volumes_closed request_mount_def Let_def
           split: option.splits mount_resolution.splits)

lemma mount_google_drive_blocks:
  "(\<exists>w'. mount_google_drive cfg w = Blocked w') \<longleftrightarrow>
     (\<exists>v. find (has_drive_identifier cfg) (volumes w) = Some v \<and> on_mount v = Never_resolves)"
  by (auto simp: mount_google_drive_def mount_volumes_closed request_mount_def Let_def
           split: option.splits mount_resolution.splits)

text \<open>
  C10: a single call of \<open>mount_google_drive\<close> issues at most one mount request. What it
  does is exactly this: it lists the volumes and makes one request, on the first volume
  in listing order that has an identifier with the provider scheme and the account, or
  none when there is no such volume. Unless the request itself raises, it then runs the
  main loop once, right after the request, and stays in it until the request resolves:
  it returns after the record of the resolution (success, failure or exception) and
  blocks for as long as the request does not resolve. No further volume is requested.
\<close>

theorem mount_at_most_one_request:
  "emitted w (world_of (mount_google_drive cfg w)) =
     Log Attempting_to_mount # Call Get_volumes #
       (case find (has_drive_identifier cfg) (volumes w) of
          None \<Rightarrow> [Log No_volume_found]
        | Some v \<Rightarrow> Call (Volume_mount v) #
            (case on_mount v of
               Mount_raises e \<Rightarrow> [Log (Failed_to_mount_exc e)]
             | Finish_true \<Rightarrow> [Call Main_loop_run, Log Mounted_successfully]
             | Finish_false \<Rightarrow> [Call Main_loop_run, Log Failed_to_mount]
             | Finish_raises e \<Rightarrow> [Call Main_loop_run, Log (Failed_to_mount_exc e)]
             | Never_resolves \<Rightarrow> [Call Main_loop_run]))
   \<and> filter mount_request (emitted w (world_of (mount_google_drive cfg w))) =
       (case find (has_drive_identifier cfg) (volumes w) of
          None \<Rightarrow> []
        | Some v \<Rightarrow> [Call (Volume_mount v)])
   \<and> filter (\<lambda>e. e = Call Main_loop_run) (emitted w (world_of (mount_google_drive cfg w))) =
       (case find (has_drive_identifier cfg) (volumes w) of
          None \<Rightarrow> []
        | Some v \<Rightarrow> (case on_mount v of Mount_raises e \<Rightarrow> [] | _ \<Rightarrow> [Call Main_loop_run]))
   \<and> ((\<exists>w'. mount_google_drive cfg w = Returned w') \<longleftrightarrow>
        (\<forall>v. find (has_drive_identifier cfg) (volumes w) = Some v \<longrightarrow> on_mount v \<noteq> Never_resolves))
   \<and> ((\<exists>w'. mount_google_drive cfg w = Blocked w') \<longleftrightarrow>
        (\<exists>v. find (has_drive_identifier cfg) (volumes w) = Some v \<and> on_mount v = Never_resolves))"
proof -
  have t: "emitted w (world_of (mount_google_drive cfg w)) =
     Log Attempting_to_mount # Call Get_volumes #
       (case find (has_drive_identifier cfg) (volumes w) of
          None \<Rightarrow> [Log No_volume_found]
        | Some v \<Rightarrow> Call (Volume_mount v) #
            (case on_mount v of
               Mount_raises e \<Rightarrow> [Log (Failed_to_mount_exc e)]
             | Finish_true \<Rightarrow> [Call Main_loop_run, Log Mounted_successfully]
             | Finish_false \<Rightarrow> [Call Main_loop_run, Log Failed_to_mount]
             | Finish_raises e \<Rightarrow> [Call Main_loop_run, Log (Failed_to_mount_exc e)]
             | Never_resolves \<Rightarrow> [Call Main_loop_run]))"
    by (rule emitted_append) (rule mount_google_drive_trace)
  have a: "filter mount_request (emitted w (world_of (mount_google_drive cfg w))) =
     (case find (has_drive_identifier cfg) (volumes w) of
        None \<Rightarrow> []
      | Some v \<Rightarrow> [Call (Volume_mount v)])"
    unfolding t by (simp split: option.splits mount_resolution.splits)
  have b: "filter (\<lambda>e. e = Call Main_loop_run) (emitted w (world_of (mount_google_drive cfg w))) =
       (case find (has_drive_identifier cfg) (volumes w) of
          None \<Rightarrow> []
        | Some v \<Rightarrow> (case on_mount v of Mount_raises e \<Rightarrow> [] | _ \<Rightarrow> [Call Main_loop_run]))"
    unfolding t by (simp split: option.splits mount_resolution.splits)
  show ?thesis
    by (intro conjI t a b mount_google_drive_returns mount_google_drive_blocks)
qed

subsection \<open>What a mount attempt changes\<close>

lemma mount_google_drive_effect:
  "\<exists>G M. list_all gate_event G \<and>
     world_of (mount_google_drive cfg w) = w\<lparr>mounts := M, trace := trace w @ G\<rparr> \<and>
     (\<forall>T. mount_google_drive cfg (w\<lparr>trace := T\<rparr>) =
        (case mount_google_drive cfg w of
           Returned x \<Rightarrow> Returned (w\<lparr>mounts := M, trace := T @ G\<rparr>)
         | Raised e x \<Rightarrow> Raised e (w\<lparr>mounts := M, trace := T @ G\<rparr>)
         | Blocked x \<Rightarrow> Blocked (w\<lparr>mounts := M, trace := T @ G\<rparr>)))"
proof (cases "find (has_drive_identifier cfg) (volumes w)")
  case None
  show ?thesis
    apply (rule exI [of _ "[Log Attempting_to_mount, Call Get_volumes, Log No_volume_found]"])
    apply (rule exI [of _ "mounts w"])
    using None by (simp add: mount_google_drive_def mount_volumes_closed emit_def)
next
  case (Some v)
  show ?thesis
  proof (cases "on_mount v")
    case (Mount_raises e)
    show ?thesis
      apply (rule exI [of _ "[Log Attempting_to_mount, Call Get_volumes, Call (Volume_mount v),
                              Log (Failed_to_mount_exc e)]"])
      apply (rule exI [of _ "mounts w"])
      using Some Mount_raises
      by (simp add: mount_google_drive_def mount_volumes_closed emit_def request_mount_def)
  next
    case Finish_true
    show ?thesis
      apply (rule exI [of _ "[Log Attempting_to_mount, Call Get_volumes, Call (Volume_mount v),
                              Call Main_loop_run, Log Mounted_successfully]"])
      apply (rule exI [of _ "mounts w @ [mount_root v]"])
      using Some Finish_true
      by (simp add: mount_google_drive_def mount_volumes_closed emit_def request_mount_def)
  next
    case Finish_false
    show ?thesis
      apply (rule exI [of _ "[Log Attempting_to_mount, Call Get_volumes, Call (Volume_mount v),
                              Call Main_loop_run, Log Failed_to_mount]"])
      apply (rule exI [of _ "mounts w"])
      using Some Finish_false
      by (simp add: mount_google_drive_def mount_volumes_closed emit_def request_mount_def)
  next
    case (Finish_raises e)
    show ?thesis
      apply (rule exI [of _ "[Log Attempting_to_mount, Call Get_volumes, Call (Volume_mount v),
                              Call Main_loop_run, Log (Failed_to_mount_exc e)]"])
      apply (rule exI [of _ "mounts w"])
      using Some Finish_raises
      by (simp add: mount_google_drive_def mount_volumes_closed emit_def request_mount_def)
  next
    case Never_resolves
    show ?thesis
      apply (rule exI [of _ "[Log Attempting_to_mount, Call Get_volumes, Call (Volume_mount v),
                              Call Main_loop_run]"])
      apply (rule exI [of _ "mounts w"])
      using Some Never_resolves
      by (simp add: mount_google_drive_def mount_volumes_closed emit_def request_mount_def)
  qed
qed

section \<open>The availability gate of \<open>sync_file\<close>\<close>

lemma is_drive_available_eq:
  "is_drive_available cfg w =
     (is_drive_available_loop cfg (mounts w), w\<lparr>trace := trace w @ [Call Get_mounts]\<rparr>)"
  by (simp add: is_drive_available_def emit_def)

lemma emitted_update [simp]:
  "emitted w (w\<lparr>mounts := M, trace := trace w @ es\<rparr>) = es"
  "emitted w (w\<lparr>trace := trace w @ es\<rparr>) = es"
  by (simp_all add: emitted_def)

lemma gate_event_not_remote: "gate_event e \<Longrightarrow> \<not> remote_call e"
  by (cases e rule: gate_event.cases) simp_all

lemma gate_event_not_entry: "gate_event e \<Longrightarrow> e \<noteq> Enter_sync_file p"
  by (cases e rule: gate_event.cases) simp_all

lemma gate_events_no_remote: "list_all gate_event G \<Longrightarrow> filter remote_call G = []"
  by (induction G) (auto dest: gate_event_not_remote)

lemma gate_events_no_entry: "list_all gate_event G \<Longrightarrow> entered_files G = []"
proof (induction G)
  case Nil
  then show ?case by simp
next
  case (Cons e G)
  then have "gate_event e" by simp
  then show ?case using Cons by (cases e rule: gate_event.cases) simp_all
qed

lemma mountIfNeeded_eq:
  "mountIfNeeded cfg w =
     (case mount_google_drive cfg w of
        Returned w' \<Rightarrow>
          Some (is_drive_available_loop cfg (mounts w'), w'\<lparr>trace := trace w' @ [Call Get_mounts]\<rparr>)
      | Raised e w' \<Rightarrow> None
      | Blocked w' \<Rightarrow> None)"
  by (simp add: mountIfNeeded_def is_drive_available_eq split: run.splits)

lemma sync_file_gate:
  obtains
    (proceed) G M where "list_all gate_event G" "is_drive_available_loop cfg M"
      "fst (is_drive_available cfg w) \<or> (\<exists>w1. mountIfNeeded cfg w = Some (True, w1))"
      "sync_file cfg p w =
         sync_file_target cfg p (w\<lparr>mounts := M, trace := trace w @ Enter_sync_file p # Call Get_mounts # G\<rparr>)"
  | (abort) G M w1 where "list_all gate_event G" "\<not> fst (is_drive_available cfg w)"
      "mountIfNeeded cfg w = Some (False, w1)"
      "sync_file cfg p w =
         Returned (w\<lparr>mounts := M,
                     trace := trace w @ Enter_sync_file p # Call Get_mounts # G @ [Log Mounting_failed_skipping_sync]\<rparr>)"
  | (blocked) G M where "list_all gate_event G" "\<not> fst (is_drive_available cfg w)"
      "mountIfNeeded cfg w = None"
      "sync_file cfg p w = Blocked (w\<lparr>mounts := M, trace := trace w @ Enter_sync_file p # Call Get_mounts # G\<rparr>)"
proof (cases "is_drive_available_loop cfg (mounts w)")
  case True
  have "sync_file cfg p w =
          sync_file_target cfg p
            (w\<lparr>mounts := mounts w, trace := trace w @ Enter_sync_file p # Call Get_mounts # []\<rparr>)"
    using True by (simp add: sync_file_def is_drive_available_eq emit_def)
  moreover have "list_all gate_event []" by simp
  moreover have "fst (is_drive_available cfg w)" using True by (simp add: is_drive_available_eq)
  ultimately show ?thesis using True proceed by blast
next
  case False
  then have na: "\<not> fst (is_drive_available cfg w)" by (simp add: is_drive_available_eq)
  obtain G M where G: "list_all gate_event G"
    and eff: "world_of (mount_google_drive cfg w) = w\<lparr>mounts := M, trace := trace w @ G\<rparr>"
    and fr: "\<And>T. mount_google_drive cfg (w\<lparr>trace := T\<rparr>) =
        (case mount_google_drive cfg w of
           Returned x \<Rightarrow> Returned (w\<lparr>mounts := M, trace := T @ G\<rparr>)
         | Raised e x \<Rightarrow> Raised e (w\<lparr>mounts := M, trace := T @ G\<rparr>)
         | Blocked x \<Rightarrow> Blocked (w\<lparr>mounts := M, trace := T @ G\<rparr>))"
    using mount_google_drive_effect [of cfg w] by blast
  let ?T = "trace w @ [Enter_sync_file p, Call Get_mounts, Log Drive_not_found]"
  let ?G1 = "Log Drive_not_found # G"
  have G1: "list_all gate_event ?G1" using G by simp
  have start: "sync_file cfg p w =
      (case mount_google_drive cfg (w\<lparr>trace := ?T\<rparr>) of
         Returned w2 \<Rightarrow>
           (case is_drive_available cfg w2 of
              (True, w3) \<Rightarrow> sync_file_target cfg p w3
            | (False, w3) \<Rightarrow> Returned (emit (Log Mounting_failed_skipping_sync) w3))
       | r \<Rightarrow> r)"
    using False by (simp add: sync_file_def is_drive_available_eq emit_def)
  show ?thesis
  proof (cases "mount_google_drive cfg w")
    case (Returned x)
    then have x: "x = w\<lparr>mounts := M, trace := trace w @ G\<rparr>" using eff by simp
    have m: "mount_google_drive cfg (w\<lparr>trace := ?T\<rparr>) = Returned (w\<lparr>mounts := M, trace := ?T @ G\<rparr>)"
      using fr [of ?T] Returned by simp
    show ?thesis
    proof (cases "is_drive_available_loop cfg M")
      case True
      have "sync_file cfg p w =
              sync_file_target cfg p
                (w\<lparr>mounts := M, trace := trace w @ Enter_sync_file p # Call Get_mounts # (?G1 @ [Call Get_mounts])\<rparr>)"
        using True by (simp add: start m is_drive_available_eq)
      moreover have "list_all gate_event (?G1 @ [Call Get_mounts])" using G by simp
      moreover have "\<exists>w1. mountIfNeeded cfg w = Some (True, w1)"
        using True Returned x by (simp add: mountIfNeeded_eq)
      ultimately show ?thesis using True proceed by blast
    next
      case nav: False
      have "sync_file cfg p w =
              Returned (w\<lparr>mounts := M,
                trace := trace w @ Enter_sync_file p # Call Get_mounts # (?G1 @ [Call Get_mounts])
                           @ [Log Mounting_failed_skipping_sync]\<rparr>)"
        using nav by (simp add: start m is_drive_available_eq emit_def)
      moreover have "list_all gate_event (?G1 @ [Call Get_mounts])" using G by simp
      moreover have "\<exists>w1. mountIfNeeded cfg w = Some (False, w1)"
        using nav Returned x by (simp add: mountIfNeeded_eq)
      ultimately show ?thesis using na abort by blast
    qed
  next
    case (Raised e x)
    then have False
      by (simp add: mount_google_drive_def mount_volumes_closed request_mount_def Let_def
               split: option.splits mount_resolution.splits)
    then show ?thesis ..
  next
    case (Blocked x)
    have m: "mount_google_drive cfg (w\<lparr>trace := ?T\<rparr>) = Blocked (w\<lparr>mounts := M, trace := ?T @ G\<rparr>)"
      using fr [of ?T] Blocked by simp
    have "sync_file cfg p w = Blocked (w\<lparr>mounts := M, trace := trace w @ Enter_sync_file p # Call Get_mounts # ?G1\<rparr>)"
      by (simp add: start m)
    moreover have "mountIfNeeded cfg w = None" using Blocked by (simp add: mountIfNeeded_eq)
    ultimately show ?thesis using na G1 blocked by blast
  qed
qed

text \<open>
  C3: when the drive is not available and the mount attempt returns without making it
  available, \<open>sync_file\<close> returns (it neither raises nor blocks), its outcome is
  skipped-no-drive, and it makes no call on the remote store: no existence query, no
  directory creation, no digest read, no delete and no copy; the store is unchanged.
\<close>

theorem sync_file_unavailable_drive:
  assumes "\<not> fst (is_drive_available cfg w)"
    and "mountIfNeeded cfg w = Some (False, w1)"
  shows "\<exists>w'. sync_file cfg p w = Returned w' \<and>
           sync_outcome (emitted w w') = Some skipped_no_drive \<and>
           filter remote_call (emitted w w') = [] \<and>
           remote_dirs w' = remote_dirs w \<and> remote_files w' = remote_files w"
proof (cases rule: sync_file_gate [of cfg w p])
  case (proceed G M)
  with assms show ?thesis by simp
next
  case (abort G M w1)
  then show ?thesis by (simp add: sync_outcome_def gate_events_no_remote)
next
  case (blocked G M)
  with assms show ?thesis by simp
qed

section \<open>The digest comparison and the copy\<close>

lemma get_remote_file_hash_frame [simp]:
  "fst (get_remote_file_hash u (w\<lparr>trace := T\<rparr>)) = fst (get_remote_file_hash u w)"
  by (simp add: get_remote_file_hash_def read_remote_def Let_def emit_def split: option.splits)

lemma compute_file_hash_frame [simp]:
  "fst (compute_file_hash p (w\<lparr>trace := T\<rparr>)) = fst (compute_file_hash p w)"
  by (simp add: compute_file_hash_def open_local_def Let_def emit_def split: option.splits)

lemma get_remote_file_hash_effect:
  "\<exists>f. list_all hash_failure f \<and> (fst (get_remote_file_hash u w) \<noteq> [] \<longrightarrow> f = []) \<and>
     get_remote_file_hash u w =
       (fst (get_remote_file_hash u w), w\<lparr>trace := trace w @ Call (Read_remote u) # f\<rparr>)"
proof (cases "faults w (Read_remote u)")
  case (Some e)
  then have "get_remote_file_hash u w =
      ([], w\<lparr>trace := trace w @ Call (Read_remote u) # [Log (Failed_remote_hash e)]\<rparr>)"
    by (simp add: get_remote_file_hash_def read_remote_def Let_def emit_def)
  then show ?thesis by (intro exI [of _ "[Log (Failed_remote_hash e)]"]) simp
next
  case None
  show ?thesis
  proof (cases "remote_files w u")
    case n: None
    with None have "get_remote_file_hash u w =
      ([], w\<lparr>trace := trace w @ Call (Read_remote u) # [Log (Failed_remote_hash ''not a readable file'')]\<rparr>)"
      by (simp add: get_remote_file_hash_def read_remote_def Let_def emit_def)
    then show ?thesis
      by (intro exI [of _ "[Log (Failed_remote_hash ''not a readable file'')]"]) simp
  next
    case (Some c)
    with None have "get_remote_file_hash u w =
      (hexdigest (sha256 w c), w\<lparr>trace := trace w @ Call (Read_remote u) # []\<rparr>)"
      by (simp add: get_remote_file_hash_def read_remote_def Let_def emit_def remote_hash_loop_all)
    then show ?thesis by (intro exI [of _ "[]"]) simp
  qed
qed

lemma compute_file_hash_effect:
  "\<exists>f. list_all hash_failure f \<and> (fst (compute_file_hash p w) \<noteq> [] \<longrightarrow> f = []) \<and>
     compute_file_hash p w =
       (fst (compute_file_hash p w), w\<lparr>trace := trace w @ Call (Open_local p) # f\<rparr>)"
proof (cases "faults w (Open_local p)")
  case (Some e)
  then have "compute_file_hash p w =
      ([], w\<lparr>trace := trace w @ Call (Open_local p) # [Log (Failed_local_hash e)]\<rparr>)"
    by (simp add: compute_file_hash_def open_local_def Let_def emit_def)
  then show ?thesis by (intro exI [of _ "[Log (Failed_local_hash e)]"]) simp
next
  case None
  show ?thesis
  proof (cases "local_files w p")
    case n: None
    with None have "compute_file_hash p w =
      ([], w\<lparr>trace := trace w @ Call (Open_local p) # [Log (Failed_local_hash ''no such file'')]\<rparr>)"
      by (simp add: compute_file_hash_def open_local_def Let_def emit_def)
    then show ?thesis
      by (intro exI [of _ "[Log (Failed_local_hash ''no such file'')]"]) simp
  next
    case (Some c)
    with None have "compute_file_hash p w =
      (hexdigest (sha256 w c), w\<lparr>trace := trace w @ Call (Open_local p) # []\<rparr>)"
      by (simp add: compute_file_hash_def open_local_def Let_def emit_def local_hash_loop_all)
    then show ?thesis by (intro exI [of _ "[]"]) simp
  qed
qed

text \<open>The copy step on a world where the target is not a directory.\<close>

lemma sync_file_copy_effect:
  assumes "u \<notin> remote_dirs w"
  shows "(\<exists>e. sync_file_copy p u w =
            Returned (w\<lparr>trace := trace w @ [Call (Copy p u), Log (Failed_to_copy p u e)]\<rparr>) \<and>
            (faults w (Copy p u) \<noteq> None \<or> local_files w p = None))
       \<or> (\<exists>c. local_files w p = Some c \<and> faults w (Copy p u) = None \<and>
            sync_file_copy p u w =
              Returned (w\<lparr>remote_files := (remote_files w)(u \<mapsto> c),
                          trace := trace w @ [Call (Copy p u), Log (Synced p u)]\<rparr>))"
proof (cases "faults w (Copy p u)")
  case (Some e)
  then show ?thesis by (auto simp: sync_file_copy_def copy_def Let_def emit_def)
next
  case None
  show ?thesis
  proof (cases "local_files w p")
    case n: None
    with None show ?thesis by (auto simp: sync_file_copy_def copy_def Let_def emit_def)
  next
    case (Some c)
    with None assms show ?thesis by (simp add: sync_file_copy_def copy_def Let_def emit_def)
  qed
qed

lemma sync_file_compare_cases:
  fixes p u w
  defines "X \<equiv> u \<in> remote_dirs w \<or> remote_files w u \<noteq> None"
  defines "skip \<equiv> X \<and> fst (get_remote_file_hash u w) \<noteq> []
                    \<and> fst (get_remote_file_hash u w) = fst (compute_file_hash p w)"
  obtains
    (skipped) "skip"
      "sync_file_compare p u w =
         Returned (w\<lparr>trace := trace w @ [Call (Query_exists u), Call (Read_remote u),
                                           Call (Open_local p), Log (Skipping_no_changes p)]\<rparr>)"
  | (delete_failed) e f1 f2 where "X" "\<not> skip" "list_all hash_failure f1" "list_all hash_failure f2"
      "sync_file_compare p u w =
         Returned (w\<lparr>trace := trace w @ Call (Query_exists u) # Call (Read_remote u) # f1 @
                      Call (Open_local p) # f2 @ [Call (Delete u), Log (Failed_to_delete u e)]\<rparr>)"
  | (replace_failed) e f1 f2 where "X" "\<not> skip" "list_all hash_failure f1" "list_all hash_failure f2"
      "sync_file_compare p u w =
         Returned (w\<lparr>remote_dirs := remote_dirs w - {u}, remote_files := (remote_files w)(u := None),
                    trace := trace w @ Call (Query_exists u) # Call (Read_remote u) # f1 @
                      Call (Open_local p) # f2 @
                      [Call (Delete u), Log (Deleted_existing_file u), Call (Copy p u),
                       Log (Failed_to_copy p u e)]\<rparr>)"
      "faults w (Copy p u) \<noteq> None \<or> local_files w p = None"
  | (replaced) c f1 f2 where "X" "\<not> skip" "list_all hash_failure f1" "list_all hash_failure f2"
      "local_files w p = Some c" "faults w (Copy p u) = None"
      "sync_file_compare p u w =
         Returned (w\<lparr>remote_dirs := remote_dirs w - {u}, remote_files := (remote_files w)(u \<mapsto> c),
                    trace := trace w @ Call (Query_exists u) # Call (Read_remote u) # f1 @
                      Call (Open_local p) # f2 @
                      [Call (Delete u), Log (Deleted_existing_file u), Call (Copy p u),
                       Log (Synced p u)]\<rparr>)"
  | (create_failed) e where "\<not> X"
      "sync_file_compare p u w =
         Returned (w\<lparr>trace := trace w @ [Call (Query_exists u), Call (Copy p u),
                                           Log (Failed_to_copy p u e)]\<rparr>)"
      "faults w (Copy p u) \<noteq> None \<or> local_files w p = None"
  | (created) c where "\<not> X" "local_files w p = Some c" "faults w (Copy p u) = None"
      "sync_file_compare p u w =
         Returned (w\<lparr>remote_files := (remote_files w)(u \<mapsto> c),
                    trace := trace w @ [Call (Query_exists u), Call (Copy p u), Log (Synced p u)]\<rparr>)"
proof (cases X)
  case False
  let ?w1 = "w\<lparr>trace := trace w @ [Call (Query_exists u)]\<rparr>"
  have c: "sync_file_compare p u w = sync_file_copy p u ?w1"
    using False by (simp add: sync_file_compare_def query_exists_def X_def emit_def)
  have "u \<notin> remote_dirs ?w1" using False by (simp add: X_def)
  from sync_file_copy_effect [OF this, of p] show ?thesis
  proof
    assume "\<exists>e. sync_file_copy p u ?w1 =
              Returned (?w1\<lparr>trace := trace ?w1 @ [Call (Copy p u), Log (Failed_to_copy p u e)]\<rparr>) \<and>
              (faults ?w1 (Copy p u) \<noteq> None \<or> local_files ?w1 p = None)"
    then obtain e where "sync_file_compare p u w =
         Returned (w\<lparr>trace := trace w @ [Call (Query_exists u), Call (Copy p u),
                                           Log (Failed_to_copy p u e)]\<rparr>)"
      "faults w (Copy p u) \<noteq> None \<or> local_files w p = None"
      using c by auto
    with False show ?thesis by (rule create_failed)
  next
    assume "\<exists>c. local_files ?w1 p = Some c \<and> faults ?w1 (Copy p u) = None \<and>
            sync_file_copy p u ?w1 =
              Returned (?w1\<lparr>remote_files := (remote_files ?w1)(u \<mapsto> c),
                          trace := trace ?w1 @ [Call (Copy p u), Log (Synced p u)]\<rparr>)"
    then obtain c' where "local_files w p = Some c'" "faults w (Copy p u) = None"
       "sync_file_compare p u w =
         Returned (w\<lparr>remote_files := (remote_files w)(u \<mapsto> c'),
                    trace := trace w @ [Call (Query_exists u), Call (Copy p u), Log (Synced p u)]\<rparr>)"
      using c by auto
    with False show ?thesis by (rule created)
  qed
next
  case True
  let ?w1 = "w\<lparr>trace := trace w @ [Call (Query_exists u)]\<rparr>"
  let ?rh = "fst (get_remote_file_hash u w)"
  let ?lh = "fst (compute_file_hash p w)"
  obtain f1 where f1: "list_all hash_failure f1" "?rh \<noteq> [] \<longrightarrow> f1 = []"
    and r: "get_remote_file_hash u ?w1 =
              (?rh, w\<lparr>trace := trace w @ Call (Query_exists u) # Call (Read_remote u) # f1\<rparr>)"
    using get_remote_file_hash_effect [of u ?w1] by auto
  let ?w2 = "w\<lparr>trace := trace w @ Call (Query_exists u) # Call (Read_remote u) # f1\<rparr>"
  obtain f2 where f2: "list_all hash_failure f2" "?lh \<noteq> [] \<longrightarrow> f2 = []"
    and l: "compute_file_hash p ?w2 =
              (?lh, w\<lparr>trace := trace w @ Call (Query_exists u) # Call (Read_remote u) # f1 @
                                 Call (Open_local p) # f2\<rparr>)"
    using compute_file_hash_effect [of p ?w2] by auto
  let ?w3 = "w\<lparr>trace := trace w @ Call (Query_exists u) # Call (Read_remote u) # f1 @
                                 Call (Open_local p) # f2\<rparr>"
  have c: "sync_file_compare p u w =
             (if ?rh \<noteq> [] \<and> ?rh = ?lh
              then Returned (emit (Log (Skipping_no_changes p)) ?w3)
              else (case delete u ?w3 of
                      (None, w4) \<Rightarrow>
                        sync_file_copy p u (emit (Log (Deleted_existing_file u)) w4)
                    | (Some e, w4) \<Rightarrow> Returned (emit (Log (Failed_to_delete u e)) w4)))"
    using True by (simp add: sync_file_compare_def query_exists_def X_def emit_def r l)
  show ?thesis
  proof (cases skip)
    case sk: True
    then have cond: "?rh \<noteq> [] \<and> ?rh = ?lh" unfolding skip_def by blast
    then have "?lh \<noteq> []" by metis
    with cond have e: "f1 = []" "f2 = []" using f1 f2 by blast+
    have "sync_file_compare p u w = Returned (emit (Log (Skipping_no_changes p)) ?w3)"
      by (subst c) (rule if_P [OF cond])
    then have "sync_file_compare p u w =
         Returned (w\<lparr>trace := trace w @ [Call (Query_exists u), Call (Read_remote u),
                                           Call (Open_local p), Log (Skipping_no_changes p)]\<rparr>)"
      using e by (simp add: emit_def)
    with sk show ?thesis by (rule skipped)
  next
    case ns: False
    then have ns': "\<not> (?rh \<noteq> [] \<and> ?rh = ?lh)" using True unfolding skip_def by blast
    show ?thesis
    proof (cases "faults w (Delete u)")
      case (Some e)
      have c': "sync_file_compare p u w =
              (case delete u ?w3 of
                      (None, w4) \<Rightarrow>
                        sync_file_copy p u (emit (Log (Deleted_existing_file u)) w4)
                    | (Some e, w4) \<Rightarrow> Returned (emit (Log (Failed_to_delete u e)) w4))"
        by (subst c) (rule if_not_P [OF ns'])
      have "sync_file_compare p u w =
         Returned (w\<lparr>trace := trace w @ Call (Query_exists u) # Call (Read_remote u) # f1 @
                      Call (Open_local p) # f2 @ [Call (Delete u), Log (Failed_to_delete u e)]\<rparr>)"
        using Some by (simp add: c' delete_def Let_def emit_def)
      with True ns f1 f2 show ?thesis by (intro delete_failed)
    next
      case None
      let ?w5 = "w\<lparr>remote_dirs := remote_dirs w - {u}, remote_files := (remote_files w)(u := None),
                    trace := trace w @ Call (Query_exists u) # Call (Read_remote u) # f1 @
                      Call (Open_local p) # f2 @ [Call (Delete u), Log (Deleted_existing_file u)]\<rparr>"
      have c': "sync_file_compare p u w =
              (case delete u ?w3 of
                      (None, w4) \<Rightarrow>
                        sync_file_copy p u (emit (Log (Deleted_existing_file u)) w4)
                    | (Some e, w4) \<Rightarrow> Returned (emit (Log (Failed_to_delete u e)) w4))"
        by (subst c) (rule if_not_P [OF ns'])
      have c5: "sync_file_compare p u w = sync_file_copy p u ?w5"
        using None True by (simp add: c' delete_def Let_def emit_def X_def)
      have "u \<notin> remote_dirs ?w5" by simp
      from sync_file_copy_effect [OF this, of p] show ?thesis
      proof
        assume "\<exists>e. sync_file_copy p u ?w5 =
              Returned (?w5\<lparr>trace := trace ?w5 @ [Call (Copy p u), Log (Failed_to_copy p u e)]\<rparr>) \<and>
              (faults ?w5 (Copy p u) \<noteq> None \<or> local_files ?w5 p = None)"
        then obtain e where "sync_file_compare p u w =
         Returned (w\<lparr>remote_dirs := remote_dirs w - {u}, remote_files := (remote_files w)(u := None),
                    trace := trace w @ Call (Query_exists u) # Call (Read_remote u) # f1 @
                      Call (Open_local p) # f2 @
                      [Call (Delete u), Log (Deleted_existing_file u), Call (Copy p u),
                       Log (Failed_to_copy p u e)]\<rparr>)"
          "faults w (Copy p u) \<noteq> None \<or> local_files w p = None"
          using c5 by auto
        with True ns f1 f2 show ?thesis by (intro replace_failed)
      next
        assume "\<exists>c. local_files ?w5 p = Some c \<and> faults ?w5 (Copy p u) = None \<and>
            sync_file_copy p u ?w5 =
              Returned (?w5\<lparr>remote_files := (remote_files ?w5)(u \<mapsto> c),
                          trace := trace ?w5 @ [Call (Copy p u), Log (Synced p u)]\<rparr>)"
        then obtain c' where "local_files w p = Some c'" "faults w (Copy p u) = None"
          "sync_file_compare p u w =
         Returned (w\<lparr>remote_dirs := remote_dirs w - {u}, remote_files := (remote_files w)(u \<mapsto> c'),
                    trace := trace w @ Call (Query_exists u) # Call (Read_remote u) # f1 @
                      Call (Open_local p) # f2 @
                      [Call (Delete u), Log (Deleted_existing_file u), Call (Copy p u),
                       Log (Synced p u)]\<rparr>)"
          using c5 by auto
        with True ns f1 f2 show ?thesis by (intro replaced)
      qed
    qed
  qed
qed

section \<open>A target is not among the ancestors of its parent\<close>

lemma sep_join_Cons: "ys \<noteq> [] \<Longrightarrow> sep_join s (x # ys) = x @ s @ sep_join s ys"
  by (cases ys) simp_all

lemma sep_join_split_sep: "sep_join [c] (split_sep c s) = s"
proof (induction s)
  case Nil
  then show ?case by simp
next
  case (Cons x xs)
  obtain v vs where r: "split_sep c xs = v # vs"
    using split_sep_nonempty [of c xs] by (cases "split_sep c xs") auto
  show ?case
  proof (cases "x = c")
    case True
    then show ?thesis using Cons r by (simp add: sep_join_Cons)
  next
    case False
    have "sep_join [c] ((x # v) # vs) = x # sep_join [c] (v # vs)" by (cases vs) simp_all
    then show ?thesis using False Cons r by simp
  qed
qed

lemma length_sep_join:
  "length (sep_join [c] xs) = sum_list (map length xs) + (length xs - 1)"
proof (induction xs)
  case Nil
  then show ?case by simp
next
  case (Cons x xs)
  then show ?case by (cases xs) simp_all
qed

lemma split_sep_no_sep_id: "c \<notin> set w \<Longrightarrow> split_sep c w = [w]"
  by (induction w) auto

lemma split_sep_append_sep:
  "c \<notin> set w \<Longrightarrow> split_sep c (w @ c # rest) = w # split_sep c rest"
  by (induction w) auto

lemma split_sep_sep_join:
  "xs \<noteq> [] \<Longrightarrow> \<forall>x\<in>set xs. c \<notin> set x \<Longrightarrow> split_sep c (sep_join [c] xs) = xs"
proof (induction xs)
  case Nil
  then show ?case by simp
next
  case (Cons x xs)
  show ?case
  proof (cases xs)
    case Nil
    then show ?thesis using Cons.prems by (simp add: split_sep_no_sep_id)
  next
    case (Cons y ys)
    then have "sep_join [c] (x # xs) = x @ c # sep_join [c] xs" by simp
    then show ?thesis using Cons Cons.IH Cons.prems by (simp add: split_sep_append_sep)
  qed
qed

lemma sum_list_take_le: "sum_list (map length (take n xs)) \<le> sum_list (map length (xs::'a list list))"
proof -
  have "sum_list (map length xs) = sum_list (map length (take n xs)) + sum_list (map length (drop n xs))"
    by (metis append_take_drop_id map_append sum_list_append)
  then show ?thesis by simp
qed

lemma length_sep_join_take:
  assumes "1 \<le> n" "n < length xs"
  shows "length (sep_join [c] (take n xs)) < length (sep_join [c] xs)"
proof -
  have "length (take n xs) = n" using assms by simp
  then have "length (sep_join [c] (take n xs)) = sum_list (map length (take n xs)) + (n - 1)"
    by (simp add: length_sep_join)
  moreover have "length (sep_join [c] xs) = sum_list (map length xs) + (length xs - 1)"
    by (rule length_sep_join)
  moreover have "n - 1 < length xs - 1" using assms by simp
  ultimately show ?thesis using sum_list_take_le [of n xs] by linarith
qed

lemma get_parent_proper:
  assumes "get_parent u = Some pd"
  shows "u \<noteq> pd" and "u \<notin> set (uri_ancestors pd)"
proof -
  define comps where "comps = split_sep CHR ''/'' u"
  have len: "3 < length comps" and pd: "pd = sep_join ''/'' (butlast comps)"
    using assms by (auto simp: get_parent_def Let_def comps_def split: if_splits)
  have u: "u = sep_join ''/'' comps" by (simp add: comps_def sep_join_split_sep)
  have bl: "butlast comps = take (length comps - 1) comps" by (simp add: butlast_conv_take)
  have shorter: "length (sep_join ''/'' (take n comps)) < length u" if "1 \<le> n" "n < length comps" for n
    using length_sep_join_take [OF that, of "CHR ''/''"] u by simp
  have "length pd < length u" using shorter [of "length comps - 1"] len pd bl by simp
  then show "u \<noteq> pd" by auto
  have sepfree: "\<forall>x\<in>set (butlast comps). CHR ''/'' \<notin> set x"
    using split_sep_no_sep [of _ "CHR ''/''" u] in_set_butlastD [of _ comps]
    by (auto simp: comps_def)
  have ne: "butlast comps \<noteq> []" using len by (cases comps rule: rev_cases) auto
  have sp: "split_sep CHR ''/'' pd = butlast comps"
    using split_sep_sep_join [OF ne sepfree] pd by simp
  have "length a < length u" if a: "a \<in> set (uri_ancestors pd)" for a
  proof -
    obtain n where n: "3 \<le> n" "n < length (butlast comps)" "a = sep_join ''/'' (take n (butlast comps))"
      using a by (auto simp: uri_ancestors_def Let_def sp)
    then have "take n (butlast comps) = take n comps" by (simp add: take_butlast)
    with n shorter [of n] show ?thesis by simp
  qed
  then show "u \<notin> set (uri_ancestors pd)" by auto
qed

section \<open>The remote target and its parent directory\<close>

lemma drive_file_path_Inl: "drive_file_path cfg wd p = Inl e \<Longrightarrow> p = []"
  by (auto simp: drive_file_path_def relpath_def Let_def split: sum.splits if_splits)

lemma sync_file_target_cases:
  obtains
    (raised) e where "p = []" "sync_file_target cfg p w = Raised e w"
  | (parent_failed) u pd e where "drive_file_path cfg (cwd w) p = Inr u" "get_parent u = Some pd"
      "\<not> (pd \<in> remote_dirs w \<or> remote_files w pd \<noteq> None)"
      "sync_file_target cfg p w =
         Returned (w\<lparr>trace := trace w @ [Call (Query_exists pd),
                      Call (Make_directory_with_parents pd), Log (Failed_to_create_parent pd e)]\<rparr>)"
  | (compare) u P D where "drive_file_path cfg (cwd w) p = Inr u"
      "list_all parent_event P" "u \<in> D \<longleftrightarrow> u \<in> remote_dirs w" "remote_dirs w \<subseteq> D"
      "\<forall>pd. get_parent u = Some pd \<longrightarrow> pd \<in> D \<or> remote_files w pd \<noteq> None"
      "(\<forall>pd. get_parent u = Some pd \<longrightarrow> pd \<in> remote_dirs w \<or> remote_files w pd \<noteq> None)
         \<longrightarrow> D = remote_dirs w \<and> filter (\<lambda>e. e = Call (Make_directory_with_parents (the (get_parent u)))) P = []"
      "\<forall>e\<in>set P. \<forall>v. e = Call (Query_exists v) \<or> e = Call (Make_directory_with_parents v)
           \<longrightarrow> get_parent u = Some v"
      "sync_file_target cfg p w = sync_file_compare p u (w\<lparr>remote_dirs := D, trace := trace w @ P\<rparr>)"
proof (cases "drive_file_path cfg (cwd w) p")
  case (Inl e)
  then have "p = []" by (rule drive_file_path_Inl)
  moreover have "sync_file_target cfg p w = Raised e w" using Inl by (simp add: sync_file_target_def)
  ultimately show ?thesis by (rule raised)
next
  case (Inr u)
  show ?thesis
  proof (cases "get_parent u")
    case None
    have "sync_file_target cfg p w = sync_file_compare p u (w\<lparr>remote_dirs := remote_dirs w, trace := trace w @ []\<rparr>)"
      using Inr None by (simp add: sync_file_target_def)
    then show ?thesis using Inr None by (intro compare [of u "[]" "remote_dirs w"]) simp_all
  next
    case (Some pd)
    show ?thesis
    proof (cases "pd \<in> remote_dirs w \<or> remote_files w pd \<noteq> None")
      case True
      have "sync_file_target cfg p w =
              sync_file_compare p u (w\<lparr>remote_dirs := remote_dirs w, trace := trace w @ [Call (Query_exists pd)]\<rparr>)"
        using Inr Some True by (auto simp: sync_file_target_def query_exists_def emit_def)
      then show ?thesis using Inr Some True
        by (intro compare [of u "[Call (Query_exists pd)]" "remote_dirs w"]) auto
    next
      case False
      show ?thesis
      proof (cases "faults w (Make_directory_with_parents pd)")
        case e: (Some e)
        have "sync_file_target cfg p w =
         Returned (w\<lparr>trace := trace w @ [Call (Query_exists pd),
                      Call (Make_directory_with_parents pd), Log (Failed_to_create_parent pd e)]\<rparr>)"
          using Inr Some False e
          by (simp add: sync_file_target_def query_exists_def make_directory_with_parents_def
                Let_def emit_def)
        with Inr Some False show ?thesis by (intro parent_failed)
      next
        case None
        let ?D = "insert pd (remote_dirs w \<union> set (uri_ancestors pd))"
        let ?P = "[Call (Query_exists pd), Call (Make_directory_with_parents pd),
                   Log (Created_parent_directory pd)]"
        have t: "sync_file_target cfg p w =
                   sync_file_compare p u (w\<lparr>remote_dirs := ?D, trace := trace w @ ?P\<rparr>)"
          using Inr Some False None
          by (simp add: sync_file_target_def query_exists_def make_directory_with_parents_def
                Let_def emit_def)
        have "u \<in> ?D \<longleftrightarrow> u \<in> remote_dirs w" using get_parent_proper [OF Some] by auto
        then show ?thesis using Inr Some False t
          by (intro compare [of u ?P ?D]) auto
      qed
    qed
  qed
qed

section \<open>The exits of \<open>sync_file\<close>\<close>

lemma get_remote_file_hash_cong:
  "remote_files w' = remote_files w \<Longrightarrow> faults w' = faults w \<Longrightarrow> sha256 w' = sha256 w \<Longrightarrow>
   fst (get_remote_file_hash u w') = fst (get_remote_file_hash u w)"
  by (simp add: get_remote_file_hash_def read_remote_def Let_def emit_def split: option.splits)

lemma compute_file_hash_cong:
  "local_files w' = local_files w \<Longrightarrow> faults w' = faults w \<Longrightarrow> sha256 w' = sha256 w \<Longrightarrow>
   fst (compute_file_hash p w') = fst (compute_file_hash p w)"
  by (simp add: compute_file_hash_def open_local_def Let_def emit_def split: option.splits)

lemma sync_file_cases:
  obtains
    (blocked) G M where "list_all gate_event G" "\<not> fst (is_drive_available cfg w)"
      "mountIfNeeded cfg w = None"
      "sync_file cfg p w = Blocked (w\<lparr>mounts := M, trace := trace w @ Enter_sync_file p # Call Get_mounts # G\<rparr>)"
  | (no_drive) G M w1 where "list_all gate_event G" "\<not> fst (is_drive_available cfg w)"
      "mountIfNeeded cfg w = Some (False, w1)"
      "sync_file cfg p w =
         Returned (w\<lparr>mounts := M,
                     trace := trace w @ Enter_sync_file p # Call Get_mounts # G @ [Log Mounting_failed_skipping_sync]\<rparr>)"
  | (raised) G M e where "list_all gate_event G" "is_drive_available_loop cfg M"
      "fst (is_drive_available cfg w) \<or> (\<exists>w1. mountIfNeeded cfg w = Some (True, w1))"
      "p = []"
      "sync_file cfg p w = Raised e (w\<lparr>mounts := M, trace := trace w @ Enter_sync_file p # Call Get_mounts # G\<rparr>)"
  | (parent_failed) G M u pd e where "list_all gate_event G" "is_drive_available_loop cfg M"
      "fst (is_drive_available cfg w) \<or> (\<exists>w1. mountIfNeeded cfg w = Some (True, w1))"
      "drive_file_path cfg (cwd w) p = Inr u" "get_parent u = Some pd"
      "sync_file cfg p w =
         Returned (w\<lparr>mounts := M, trace := trace w @ Enter_sync_file p # Call Get_mounts # G @
                     [Call (Query_exists pd), Call (Make_directory_with_parents pd),
                      Log (Failed_to_create_parent pd e)]\<rparr>)"
      "\<not> (pd \<in> remote_dirs w \<or> remote_files w pd \<noteq> None)"
  | (transfer) G M u P D where "list_all gate_event G" "is_drive_available_loop cfg M"
      "fst (is_drive_available cfg w) \<or> (\<exists>w1. mountIfNeeded cfg w = Some (True, w1))"
      "drive_file_path cfg (cwd w) p = Inr u"
      "list_all parent_event P" "u \<in> D \<longleftrightarrow> u \<in> remote_dirs w" "remote_dirs w \<subseteq> D"
      "\<forall>pd. get_parent u = Some pd \<longrightarrow> pd \<in> D \<or> remote_files w pd \<noteq> None"
      "(\<forall>pd. get_parent u = Some pd \<longrightarrow> pd \<in> remote_dirs w \<or> remote_files w pd \<noteq> None)
         \<longrightarrow> D = remote_dirs w"
      "\<forall>e\<in>set P. \<forall>v. e = Call (Query_exists v) \<or> e = Call (Make_directory_with_parents v)
           \<longrightarrow> get_parent u = Some v"
      "sync_file cfg p w =
         sync_file_compare p u
           (w\<lparr>mounts := M, remote_dirs := D, trace := trace w @ Enter_sync_file p # Call Get_mounts # G @ P\<rparr>)"
proof (cases rule: sync_file_gate [of cfg w p])
  case (proceed G M)
  let ?W = "w\<lparr>mounts := M, trace := trace w @ Enter_sync_file p # Call Get_mounts # G\<rparr>"
  show ?thesis
  proof (cases rule: sync_file_target_cases [of p cfg ?W])
    case (raised e)
    then have "sync_file cfg p w = Raised e ?W" using proceed by simp
    with proceed raised show ?thesis by (intro that(3) [of G M e]) simp_all
  next
    case (parent_failed u pd e)
    then have "sync_file cfg p w =
         Returned (w\<lparr>mounts := M, trace := trace w @ Enter_sync_file p # Call Get_mounts # G @
                     [Call (Query_exists pd), Call (Make_directory_with_parents pd),
                      Log (Failed_to_create_parent pd e)]\<rparr>)"
      using proceed by simp
    with proceed parent_failed show ?thesis by (intro that(4) [of G M u pd e]) simp_all
  next
    case (compare u P D)
    then have "sync_file cfg p w =
         sync_file_compare p u
           (w\<lparr>mounts := M, remote_dirs := D, trace := trace w @ Enter_sync_file p # Call Get_mounts # G @ P\<rparr>)"
      using proceed by simp
    with proceed compare show ?thesis by (intro that(5) [of G M u P D]) simp_all
  qed
next
  case (abort G M w1)
  then show ?thesis by (intro that(2) [of G w1 M]) simp_all
next
  case (blocked G M)
  then show ?thesis by (intro that(1) [of G M]) simp_all
qed

section \<open>Skipping on equal digests\<close>

lemma not_in_class: "list_all Q xs \<Longrightarrow> \<not> Q e \<Longrightarrow> e \<notin> set xs"
  by (auto simp: list_all_iff)

lemma class_filter_empty: "list_all Q xs \<Longrightarrow> (\<And>e. Q e \<Longrightarrow> \<not> R e) \<Longrightarrow> filter R xs = []"
  by (auto simp: list_all_iff filter_empty_conv)

lemma gate_event_not_dc: "gate_event e \<Longrightarrow> \<not> delete_or_copy e"
  by (cases e rule: gate_event.cases) simp_all

lemma parent_event_not_dc: "parent_event e \<Longrightarrow> \<not> delete_or_copy e"
  by (cases e rule: parent_event.cases) simp_all

lemma hash_failure_not_dc: "hash_failure e \<Longrightarrow> \<not> delete_or_copy e"
  by (cases e rule: hash_failure.cases) simp_all

lemma emitted_update3 [simp]:
  "emitted w (w\<lparr>mounts := M, remote_dirs := D, trace := trace w @ es\<rparr>) = es"
  "emitted w (w\<lparr>mounts := M, remote_dirs := D, remote_files := F, trace := trace w @ es\<rparr>) = es"
  "emitted w (w\<lparr>mounts := M, remote_files := F, trace := trace w @ es\<rparr>) = es"
  by (simp_all add: emitted_def)

text \<open>
  C2: in every invocation of \<open>sync_file\<close> that reads the remote object for its digest
  (the object exists at the target), where the remote and the local digest are both
  computed (not the empty sentinel) and equal, the invocation returns with outcome
  skipped-no-change and makes no delete and no copy call; the remote files are unchanged.
\<close>

theorem sync_file_skips_on_equal_digests:
  assumes reach: "Call (Read_remote dest) \<in> set (emitted w (world_of (sync_file cfg p w)))"
    and rh: "fst (get_remote_file_hash dest w) = h"
    and lh: "fst (compute_file_hash p w) = h"
    and h: "h \<noteq> []"
  shows "\<exists>w'. sync_file cfg p w = Returned w' \<and>
           sync_outcome (emitted w w') = Some skipped_no_change \<and>
           filter delete_or_copy (emitted w w') = [] \<and>
           remote_files w' = remote_files w"
proof (cases rule: sync_file_cases [of cfg w p])
  case (blocked G M)
  with reach have "Call (Read_remote dest) \<in> set G" by simp
  with blocked(1) show ?thesis by (auto simp: list_all_iff)
next
  case (no_drive G M w1)
  with reach have "Call (Read_remote dest) \<in> set G" by simp
  with no_drive(1) show ?thesis by (auto simp: list_all_iff)
next
  case (raised G M e)
  with reach have "Call (Read_remote dest) \<in> set G" by simp
  with raised(1) show ?thesis by (auto simp: list_all_iff)
next
  case (parent_failed G M u pd e)
  with reach have "Call (Read_remote dest) \<in> set G" by simp
  with parent_failed(1) show ?thesis by (auto simp: list_all_iff)
next
  case (transfer G M u P D)
  let ?W = "w\<lparr>mounts := M, remote_dirs := D, trace := trace w @ Enter_sync_file p # Call Get_mounts # G @ P\<rparr>"
  have nG: "Call (Read_remote dest) \<notin> set G" using transfer(1) by (auto simp: list_all_iff)
  have nP: "Call (Read_remote dest) \<notin> set P" using transfer(5) by (auto simp: list_all_iff)
  have frh: "fst (get_remote_file_hash u ?W) = fst (get_remote_file_hash u w)"
    by (rule get_remote_file_hash_cong) simp_all
  have flh: "fst (compute_file_hash p ?W) = fst (compute_file_hash p w)"
    by (rule compute_file_hash_cong) simp_all
  have dcG: "filter delete_or_copy G = []"
    using transfer(1) by (rule class_filter_empty) (rule gate_event_not_dc)
  have dcP: "filter delete_or_copy P = []"
    using transfer(5) by (rule class_filter_empty) (rule parent_event_not_dc)
  show ?thesis
  proof (cases rule: sync_file_compare_cases [where p = p and u = u and w = ?W])
    case skipped
    then show ?thesis using transfer(11) dcG dcP by (simp add: sync_outcome_def)
  next
    case (delete_failed e f1 f2)
    have "Call (Read_remote dest) \<notin> set f1" "Call (Read_remote dest) \<notin> set f2"
      using delete_failed(3,4) by (auto simp: list_all_iff)
    with reach nG nP delete_failed(5) transfer(11) have "dest = u" by auto
    with rh lh h frh flh delete_failed(1,2) show ?thesis by simp
  next
    case (replace_failed e f1 f2)
    have "Call (Read_remote dest) \<notin> set f1" "Call (Read_remote dest) \<notin> set f2"
      using replace_failed(3,4) by (auto simp: list_all_iff)
    with reach nG nP replace_failed(5) transfer(11) have "dest = u" by auto
    with rh lh h frh flh replace_failed(1,2) show ?thesis by simp
  next
    case (replaced c f1 f2)
    have "Call (Read_remote dest) \<notin> set f1" "Call (Read_remote dest) \<notin> set f2"
      using replaced(3,4) by (auto simp: list_all_iff)
    with reach nG nP replaced(7) transfer(11) have "dest = u" by auto
    with rh lh h frh flh replaced(1,2) show ?thesis by simp
  next
    case (create_failed e)
    with reach nG nP transfer(11) show ?thesis by auto
  next
    case (created c)
    with reach nG nP transfer(11) show ?thesis by auto
  qed
qed

section \<open>Runs of the example\<close>

lemma example_target:
  "drive_file_path example_config ''/'' ''/home/u/docs/a/b.txt''
     = Inr ''google-drive://u@example/sync/docs/a/b.txt''"
  by code_simp

lemma example_parent:
  "get_parent ''google-drive://u@example/sync/docs/a/b.txt''
     = Some ''google-drive://u@example/sync/docs/a''"
  by code_simp

lemma example_available: "is_drive_available_loop example_config [''google-drive://u@example/'']"
  by code_simp

lemma example_ancestors: "uri_ancestors ''google-drive://u@example/sync/docs/a'' =
  [''google-drive://u@example'', ''google-drive://u@example/sync'', ''google-drive://u@example/sync/docs'']"
  by code_simp

lemmas run_defs = sync_file_def sync_file_target_def sync_file_compare_def sync_file_copy_def
  is_drive_available_def query_exists_def make_directory_with_parents_def
  get_remote_file_hash_def compute_file_hash_def read_remote_def open_local_def delete_def
  copy_def emit_def Let_def remote_hash_loop_all local_hash_loop_all hexdigest_nonempty

lemma synced_run:
  "sync_file example_config ''/home/u/docs/a/b.txt'' synced_world =
     Returned (synced_world\<lparr>trace :=
       [Enter_sync_file ''/home/u/docs/a/b.txt'', Call Get_mounts,
        Call (Query_exists ''google-drive://u@example/sync/docs/a''),
        Call (Query_exists ''google-drive://u@example/sync/docs/a/b.txt''),
        Call (Read_remote ''google-drive://u@example/sync/docs/a/b.txt''),
        Call (Open_local ''/home/u/docs/a/b.txt''),
        Log (Skipping_no_changes ''/home/u/docs/a/b.txt'')]\<rparr>)"
  by (simp add: run_defs synced_world_def example_world_def example_target example_parent
        example_available del: is_drive_available_loop.simps)

lemma example_run:
  "sync_file example_config ''/home/u/docs/a/b.txt'' example_world =
     Returned (example_world\<lparr>
       remote_dirs := {''google-drive://u@example/sync/docs/a'', ''google-drive://u@example'',
          ''google-drive://u@example/sync'', ''google-drive://u@example/sync/docs''},
       remote_files := [''google-drive://u@example/sync/docs/a/b.txt'' \<mapsto> [1, 2, 3]],
       trace :=
       [Enter_sync_file ''/home/u/docs/a/b.txt'', Call Get_mounts,
        Call (Query_exists ''google-drive://u@example/sync/docs/a''),
        Call (Make_directory_with_parents ''google-drive://u@example/sync/docs/a''),
        Log (Created_parent_directory ''google-drive://u@example/sync/docs/a''),
        Call (Query_exists ''google-drive://u@example/sync/docs/a/b.txt''),
        Call (Copy ''/home/u/docs/a/b.txt'' ''google-drive://u@example/sync/docs/a/b.txt''),
        Log (Synced ''/home/u/docs/a/b.txt'' ''google-drive://u@example/sync/docs/a/b.txt'')]\<rparr>)"
  by (simp add: run_defs example_world_def example_target example_parent
        example_available example_ancestors del: is_drive_available_loop.simps)

section \<open>Digest failures and outcomes\<close>

lemma get_remote_file_hash_sentinel:
  "fst (get_remote_file_hash u w) = [] \<longleftrightarrow> isl (fst (read_remote u w))"
  by (simp add: get_remote_file_hash_def read_remote_def Let_def hexdigest_nonempty
           split: option.splits)

lemma compute_file_hash_sentinel:
  "fst (compute_file_hash p w) = [] \<longleftrightarrow> isl (fst (open_local p w))"
  by (simp add: compute_file_hash_def open_local_def Let_def hexdigest_nonempty
           split: option.splits)

lemma last_exit [simp]: "last (e # c # G @ P @ x # xs) = last (x # xs)"
  by simp

text \<open>
  C4: when reading the remote object or reading the local file fails, the digest
  function concerned returns the empty sentinel instead of raising, and the invocation
  of \<open>sync_file\<close> never ends with outcome skipped-no-change, also when both reads fail and
  the two sentinels are equal.
\<close>

theorem digest_failure_never_skips:
  assumes dest: "drive_file_path cfg (cwd w) p = Inr dest"
    and fail: "isl (fst (read_remote dest w)) \<or> isl (fst (open_local p w))"
  shows "(isl (fst (read_remote dest w)) \<longrightarrow> fst (get_remote_file_hash dest w) = []) \<and>
         (isl (fst (open_local p w)) \<longrightarrow> fst (compute_file_hash p w) = []) \<and>
         (\<forall>w'. sync_file cfg p w = Returned w' \<longrightarrow>
                sync_outcome (emitted w w') \<noteq> Some skipped_no_change)"
proof -
  have sentinel: "fst (get_remote_file_hash dest w) = [] \<or> fst (compute_file_hash p w) = []"
    using fail by (simp add: get_remote_file_hash_sentinel compute_file_hash_sentinel)
  have "sync_outcome (emitted w w') \<noteq> Some skipped_no_change" if r: "sync_file cfg p w = Returned w'" for w'
  proof (cases rule: sync_file_cases [of cfg w p])
    case (blocked G M)
    with r show ?thesis by simp
  next
    case (no_drive G M w1)
    with r show ?thesis by (auto simp: sync_outcome_def)
  next
    case (raised G M e)
    with r show ?thesis by simp
  next
    case (parent_failed G M u pd e)
    with r show ?thesis by (auto simp: sync_outcome_def)
  next
    case (transfer G M u P D)
    let ?W = "w\<lparr>mounts := M, remote_dirs := D, trace := trace w @ Enter_sync_file p # Call Get_mounts # G @ P\<rparr>"
    have u: "u = dest" using transfer(4) dest by simp
    have frh: "fst (get_remote_file_hash u ?W) = fst (get_remote_file_hash u w)"
      by (rule get_remote_file_hash_cong) simp_all
    have flh: "fst (compute_file_hash p ?W) = fst (compute_file_hash p w)"
      by (rule compute_file_hash_cong) simp_all
    show ?thesis
    proof (cases rule: sync_file_compare_cases [where p = p and u = u and w = ?W])
      case skipped
      with sentinel u frh flh show ?thesis by auto
    next
      case (delete_failed e f1 f2)
      with r transfer(11) show ?thesis by (auto simp: sync_outcome_def split: if_splits)
    next
      case (replace_failed e f1 f2)
      with r transfer(11) show ?thesis by (auto simp: sync_outcome_def split: if_splits)
    next
      case (replaced c f1 f2)
      with r transfer(11) show ?thesis by (auto simp: sync_outcome_def split: if_splits)
    next
      case (create_failed e)
      with r transfer(11) show ?thesis by (auto simp: sync_outcome_def split: if_splits)
    next
      case (created c)
      with r transfer(11) show ?thesis by (auto simp: sync_outcome_def split: if_splits)
    qed
  qed
  then show ?thesis
    by (simp add: get_remote_file_hash_sentinel compute_file_hash_sentinel)
qed

lemma gate_event_not_deleted: "list_all gate_event G \<Longrightarrow> Log (Deleted_existing_file u) \<notin> set G"
  by (auto simp: list_all_iff)

lemma parent_event_not_deleted: "list_all parent_event P \<Longrightarrow> Log (Deleted_existing_file u) \<notin> set P"
  by (auto simp: list_all_iff)

lemma gate_event_not_synced: "list_all gate_event G \<Longrightarrow> Log (Synced p u) \<notin> set G"
  by (auto simp: list_all_iff)

lemma parent_event_not_synced: "list_all parent_event P \<Longrightarrow> Log (Synced p u) \<notin> set P"
  by (auto simp: list_all_iff)

lemma hash_failure_not_synced: "list_all hash_failure f \<Longrightarrow> Log (Synced p u) \<notin> set f"
  by (auto simp: list_all_iff)

lemma gate_event_no_transfer:
  "list_all gate_event G \<Longrightarrow> Call (Copy p u) \<notin> set G \<and> Call (Delete u) \<notin> set G"
  by (auto simp: list_all_iff)

lemma parent_event_no_transfer:
  "list_all parent_event P \<Longrightarrow> Call (Copy p u) \<notin> set P \<and> Call (Delete u) \<notin> set P"
  by (auto simp: list_all_iff)

lemma hash_failure_no_transfer:
  "list_all hash_failure f \<Longrightarrow> Call (Copy p u) \<notin> set f \<and> Call (Delete u) \<notin> set f"
  by (auto simp: list_all_iff)

text \<open>
  C6, amended: every invocation of \<open>sync_file\<close> on a non-empty path whose mount request,
  if one is made, resolves returns with one of the outcomes of \<open>SyncOutcome\<close>. The outcome
  is \<open>created\<close> or \<open>replaced\<close> exactly when the invocation made the copy call and the
  platform completed it (no fault on the call, the local file is there); the remote
  target then holds the content of the local file. Of the two, the outcome is \<open>replaced\<close>
  exactly when a remote object existed at the target when the invocation began, which is
  exactly when the invocation made the delete call, and \<open>created\<close> otherwise.
\<close>

theorem sync_file_outcome:
  assumes path: "p \<noteq> []"
    and resolves: "fst (is_drive_available cfg w) \<or> mountIfNeeded cfg w \<noteq> None"
  shows "\<exists>w' outcome dest. sync_file cfg p w = Returned w' \<and>
           sync_outcome (emitted w w') = Some outcome \<and>
           drive_file_path cfg (cwd w) p = Inr dest \<and>
           ((outcome = created \<or> outcome = replaced) \<longleftrightarrow>
              Call (Copy p dest) \<in> set (emitted w w') \<and>
              faults w (Copy p dest) = None \<and> local_files w p \<noteq> None) \<and>
           (outcome = created \<or> outcome = replaced \<longrightarrow>
              remote_files w' dest = local_files w p \<and>
              ((outcome = replaced) \<longleftrightarrow> dest \<in> remote_dirs w \<or> remote_files w dest \<noteq> None) \<and>
              ((outcome = replaced) \<longleftrightarrow> Call (Delete dest) \<in> set (emitted w w')))"
proof -
  from drive_file_path_shape [OF path, of "cwd w" cfg]
  obtain dest where dest: "drive_file_path cfg (cwd w) p = Inr dest" by blast
  show ?thesis
  proof (cases rule: sync_file_cases [of cfg w p])
    case (blocked G M)
    with resolves show ?thesis by simp
  next
    case (no_drive G M w1)
    note nt = gate_event_no_transfer [OF no_drive(1), of p dest]
    from no_drive(4) dest nt show ?thesis by (simp add: sync_outcome_def)
  next
    case (raised G M e)
    with path show ?thesis by simp
  next
    case (parent_failed G M u pd e)
    note nt = gate_event_no_transfer [OF parent_failed(1), of p dest]
    from parent_failed(6) dest nt show ?thesis by (simp add: sync_outcome_def)
  next
    case (transfer G M u P D)
    have u: "u = dest" using transfer(4) dest by simp
    let ?W = "w\<lparr>mounts := M, remote_dirs := D, trace := trace w @ Enter_sync_file p # Call Get_mounts # G @ P\<rparr>"
    note ns = gate_event_not_synced [OF transfer(1)] parent_event_not_synced [OF transfer(5)]
    note nd = gate_event_not_deleted [OF transfer(1)] parent_event_not_deleted [OF transfer(5)]
    note nt = gate_event_no_transfer [OF transfer(1), of p dest]
      parent_event_no_transfer [OF transfer(5), of p dest]
    show ?thesis
    proof (cases rule: sync_file_compare_cases [where p = p and u = u and w = ?W])
      case skipped
      from skipped(2) transfer(11) dest nt show ?thesis
        by (simp add: sync_outcome_def u)
    next
      case (delete_failed e f1 f2)
      note nh = hash_failure_no_transfer [OF delete_failed(3), of p dest]
        hash_failure_no_transfer [OF delete_failed(4), of p dest]
      from delete_failed(5) transfer(11) dest nt nh show ?thesis
        by (simp add: sync_outcome_def u)
    next
      case (replace_failed e f1 f2)
      from replace_failed(5,6) transfer(11) dest show ?thesis
        by (auto simp: sync_outcome_def u)
    next
      case (replaced c f1 f2)
      from replaced(1,5,6,7) transfer(11) transfer(6) dest show ?thesis
        by (auto simp: sync_outcome_def u)
    next
      case (create_failed e)
      from create_failed(2,3) transfer(11) dest show ?thesis
        by (auto simp: sync_outcome_def u)
    next
      case (created c)
      note nh = nd [of dest]
      from created transfer(11) transfer(6) dest nt nh show ?thesis
        by (auto simp: sync_outcome_def u)
    qed
  qed
qed

section \<open>Two calls in a row\<close>



section \<open>The theorems at the example\<close>







theorem sync_file_skips_on_equal_digests_witness:
  "Call (Read_remote ''google-drive://u@example/sync/docs/a/b.txt'')
     \<in> set (emitted synced_world
              (world_of (sync_file example_config ''/home/u/docs/a/b.txt'' synced_world))) \<and>
   fst (get_remote_file_hash ''google-drive://u@example/sync/docs/a/b.txt'' synced_world)
     = hexdigest 3 \<and>
   fst (compute_file_hash ''/home/u/docs/a/b.txt'' synced_world) = hexdigest 3 \<and>
   hexdigest 3 \<noteq> [] \<and>
   (\<exists>w'. sync_file example_config ''/home/u/docs/a/b.txt'' synced_world = Returned w' \<and>
      sync_outcome (emitted synced_world w') = Some skipped_no_change \<and>
      filter delete_or_copy (emitted synced_world w') = [] \<and>
      remote_files w' = remote_files synced_world)"
proof -
  have reach: "Call (Read_remote ''google-drive://u@example/sync/docs/a/b.txt'')
     \<in> set (emitted synced_world
              (world_of (sync_file example_config ''/home/u/docs/a/b.txt'' synced_world)))"
    unfolding synced_run by (simp add: emitted_def synced_world_def example_world_def)
  have rh: "fst (get_remote_file_hash ''google-drive://u@example/sync/docs/a/b.txt'' synced_world)
     = hexdigest 3"
    by (simp add: synced_world_def example_world_def get_remote_file_hash_def read_remote_def
          Let_def remote_hash_loop_all)
  have lh: "fst (compute_file_hash ''/home/u/docs/a/b.txt'' synced_world) = hexdigest 3"
    by (simp add: synced_world_def example_world_def compute_file_hash_def open_local_def
          Let_def local_hash_loop_all)
  have h: "hexdigest 3 \<noteq> []" by (rule hexdigest_nonempty)
  from sync_file_skips_on_equal_digests [OF reach rh lh h] reach rh lh h
  show ?thesis by blast
qed

theorem sync_file_unavailable_drive_witness:
  "\<not> fst (is_drive_available example_config unmounted_world) \<and>
   (\<exists>w1. mountIfNeeded example_config unmounted_world = Some (False, w1)) \<and>
   (\<exists>w'. sync_file example_config ''/home/u/docs/a/b.txt'' unmounted_world = Returned w' \<and>
      sync_outcome (emitted unmounted_world w') = Some skipped_no_drive \<and>
      filter remote_call (emitted unmounted_world w') = [] \<and>
      remote_dirs w' = remote_dirs unmounted_world \<and>
      remote_files w' = remote_files unmounted_world)"
proof -
  have a: "\<not> fst (is_drive_available example_config unmounted_world)"
    by (simp add: is_drive_available_eq unmounted_world_def)
  obtain w1 where b: "mountIfNeeded example_config unmounted_world = Some (False, w1)"
    by (simp add: mountIfNeeded_eq mount_google_drive_def unmounted_world_def example_world_def)
  from sync_file_unavailable_drive [OF a b] a b show ?thesis by blast
qed

theorem digest_failure_never_skips_witness:
  "drive_file_path example_config (cwd unreadable_world) ''/home/u/docs/a/b.txt''
     = Inr ''google-drive://u@example/sync/docs/a/b.txt'' \<and>
   isl (fst (read_remote ''google-drive://u@example/sync/docs/a/b.txt'' unreadable_world)) \<and>
   fst (get_remote_file_hash ''google-drive://u@example/sync/docs/a/b.txt'' unreadable_world) = [] \<and>
   (\<exists>w'. sync_file example_config ''/home/u/docs/a/b.txt'' unreadable_world = Returned w' \<and>
      sync_outcome (emitted unreadable_world w') = Some replaced \<and>
      sync_outcome (emitted unreadable_world w') \<noteq> Some skipped_no_change)"
proof -
  have dest: "drive_file_path example_config (cwd unreadable_world) ''/home/u/docs/a/b.txt''
     = Inr ''google-drive://u@example/sync/docs/a/b.txt''"
    by (simp add: unreadable_world_def synced_world_def example_world_def example_target)
  have fail: "isl (fst (read_remote ''google-drive://u@example/sync/docs/a/b.txt'' unreadable_world))"
    by (simp add: unreadable_world_def read_remote_def Let_def)
  obtain w' where run: "sync_file example_config ''/home/u/docs/a/b.txt'' unreadable_world = Returned w'"
    and out: "sync_outcome (emitted unreadable_world w') = Some replaced"
    by (simp add: run_defs unreadable_world_def synced_world_def example_world_def example_target
          example_parent example_available sync_outcome_def emitted_def
          del: is_drive_available_loop.simps)
  from digest_failure_never_skips [OF dest disjI1 [OF fail]] dest fail run out
  show ?thesis by blast
qed

theorem sync_file_outcome_witness:
  "''/home/u/docs/a/b.txt'' \<noteq> [] \<and> fst (is_drive_available example_config example_world) \<and>
   (\<exists>w'. sync_file example_config ''/home/u/docs/a/b.txt'' example_world = Returned w' \<and>
      sync_outcome (emitted example_world w') = Some created \<and>
      Call (Copy ''/home/u/docs/a/b.txt'' ''google-drive://u@example/sync/docs/a/b.txt'')
        \<in> set (emitted example_world w') \<and>
      faults example_world
        (Copy ''/home/u/docs/a/b.txt'' ''google-drive://u@example/sync/docs/a/b.txt'') = None \<and>
      remote_files w' ''google-drive://u@example/sync/docs/a/b.txt'' = Some [1, 2, 3] \<and>
      remote_files example_world ''google-drive://u@example/sync/docs/a/b.txt'' = None \<and>
      Call (Delete ''google-drive://u@example/sync/docs/a/b.txt'') \<notin> set (emitted example_world w'))"
proof -
  have p: "''/home/u/docs/a/b.txt'' \<noteq> []" by simp
  have a: "fst (is_drive_available example_config example_world)"
    by (simp add: is_drive_available_eq example_world_def example_available
          del: is_drive_available_loop.simps)
  have d: "drive_file_path example_config (cwd example_world) ''/home/u/docs/a/b.txt''
             = Inr ''google-drive://u@example/sync/docs/a/b.txt''"
    by (simp add: example_world_def example_target)
  have l: "local_files example_world ''/home/u/docs/a/b.txt'' = Some [1, 2, 3]"
    "faults example_world
        (Copy ''/home/u/docs/a/b.txt'' ''google-drive://u@example/sync/docs/a/b.txt'') = None"
    "remote_files example_world ''google-drive://u@example/sync/docs/a/b.txt'' = None"
    "''google-drive://u@example/sync/docs/a/b.txt'' \<notin> remote_dirs example_world"
    by (simp_all add: example_world_def)
  obtain w' outcome dest where
    run: "sync_file example_config ''/home/u/docs/a/b.txt'' example_world = Returned w'"
    and out: "sync_outcome (emitted example_world w') = Some outcome"
    and dest: "drive_file_path example_config (cwd example_world) ''/home/u/docs/a/b.txt'' = Inr dest"
    and copied: "(outcome = created \<or> outcome = replaced) \<longleftrightarrow>
              Call (Copy ''/home/u/docs/a/b.txt'' dest) \<in> set (emitted example_world w') \<and>
              faults example_world (Copy ''/home/u/docs/a/b.txt'' dest) = None \<and>
              local_files example_world ''/home/u/docs/a/b.txt'' \<noteq> None"
    and which: "outcome = created \<or> outcome = replaced \<longrightarrow>
              remote_files w' dest = local_files example_world ''/home/u/docs/a/b.txt'' \<and>
              ((outcome = replaced) \<longleftrightarrow>
                 dest \<in> remote_dirs example_world \<or> remote_files example_world dest \<noteq> None) \<and>
              ((outcome = replaced) \<longleftrightarrow> Call (Delete dest) \<in> set (emitted example_world w'))"
    using sync_file_outcome [OF p disjI1 [OF a]] by blast
  have dd: "dest = ''google-drive://u@example/sync/docs/a/b.txt''" using d dest by simp
  have w': "w' = example_world\<lparr>
       remote_dirs := {''google-drive://u@example/sync/docs/a'', ''google-drive://u@example'',
          ''google-drive://u@example/sync'', ''google-drive://u@example/sync/docs''},
       remote_files := [''google-drive://u@example/sync/docs/a/b.txt'' \<mapsto> [1, 2, 3]],
       trace :=
       [Enter_sync_file ''/home/u/docs/a/b.txt'', Call Get_mounts,
        Call (Query_exists ''google-drive://u@example/sync/docs/a''),
        Call (Make_directory_with_parents ''google-drive://u@example/sync/docs/a''),
        Log (Created_parent_directory ''google-drive://u@example/sync/docs/a''),
        Call (Query_exists ''google-drive://u@example/sync/docs/a/b.txt''),
        Call (Copy ''/home/u/docs/a/b.txt'' ''google-drive://u@example/sync/docs/a/b.txt''),
        Log (Synced ''/home/u/docs/a/b.txt'' ''google-drive://u@example/sync/docs/a/b.txt'')]\<rparr>"
    using run example_run by simp
  have c: "Call (Copy ''/home/u/docs/a/b.txt'' ''google-drive://u@example/sync/docs/a/b.txt'')
        \<in> set (emitted example_world w')"
    by (simp add: w' emitted_def example_world_def)
  from copied c l have cr: "outcome = created \<or> outcome = replaced" by (simp add: dd)
  with which l have "outcome \<noteq> replaced" by (simp add: dd)
  with cr have o: "outcome = created" by simp
  from which o l have
    "remote_files w' ''google-drive://u@example/sync/docs/a/b.txt'' = Some [1, 2, 3]"
    "Call (Delete ''google-drive://u@example/sync/docs/a/b.txt'') \<notin> set (emitted example_world w')"
    by (simp_all add: dd)
  with p a run out o c l show ?thesis by blast
qed

section \<open>The mount coordinator at the example\<close>

lemmas volume_eval = has_drive_identifier_def is_drive_uri_def startswith_def
  GOOGLE_DRIVE_PREFIX_def example_config_def usb_volume_def failing_drive_volume_def
  drive_volume_def hanging_volume_def

lemma hanging_identifier: "has_drive_identifier example_config hanging_volume"
  by (simp add: volume_eval)

lemma usb_no_identifier: "\<not> has_drive_identifier example_config usb_volume"
  by (simp add: volume_eval)

lemma failing_drive_identifier: "has_drive_identifier example_config failing_drive_volume"
  by (simp add: volume_eval)

lemma drive_identifier: "has_drive_identifier example_config drive_volume"
  by (simp add: volume_eval)

text \<open>
  C6, as the specification states it, fails for two invocations: with the drive
  unavailable and a mount request that never resolves, \<open>sync_file\<close> blocks in the main
  loop and returns nothing; on the empty path it raises \<open>ValueError\<close>.
\<close>

theorem sync_file_no_outcome_counterexample:
  "sync_file example_config ''/home/u/docs/a/b.txt'' hanging_world =
     Blocked (hanging_world\<lparr>trace :=
       [Enter_sync_file ''/home/u/docs/a/b.txt'', Call Get_mounts, Log Drive_not_found,
        Log Attempting_to_mount, Call Get_volumes, Call (Volume_mount hanging_volume),
        Call Main_loop_run]\<rparr>) \<and>
   sync_file example_config [] example_world =
     Raised (ValueError ''no path specified'')
       (example_world\<lparr>trace := [Enter_sync_file [], Call Get_mounts]\<rparr>)"
proof (intro conjI)
  have h: "on_mount hanging_volume = Never_resolves" by (simp add: hanging_volume_def)
  show "sync_file example_config ''/home/u/docs/a/b.txt'' hanging_world =
     Blocked (hanging_world\<lparr>trace :=
       [Enter_sync_file ''/home/u/docs/a/b.txt'', Call Get_mounts, Log Drive_not_found,
        Log Attempting_to_mount, Call Get_volumes, Call (Volume_mount hanging_volume),
        Call Main_loop_run]\<rparr>)"
    by (simp add: sync_file_def is_drive_available_def mount_google_drive_def mount_volumes_closed
          request_mount_def Let_def emit_def hanging_world_def example_world_def h
          usb_no_identifier hanging_identifier)
  show "sync_file example_config [] example_world =
     Raised (ValueError ''no path specified'')
       (example_world\<lparr>trace := [Enter_sync_file [], Call Get_mounts]\<rparr>)"
    by (simp add: sync_file_def is_drive_available_def sync_file_target_def drive_file_path_def
          relpath_def emit_def example_world_def example_available
          del: is_drive_available_loop.simps)
qed

theorem mount_at_most_one_request_witness:
  "find (has_drive_identifier example_config) (volumes three_volumes_world)
     = Some failing_drive_volume \<and>
   on_mount failing_drive_volume \<noteq> Never_resolves \<and>
   emitted three_volumes_world (world_of (mount_google_drive example_config three_volumes_world))
     = [Log Attempting_to_mount, Call Get_volumes, Call (Volume_mount failing_drive_volume),
        Call Main_loop_run, Log Failed_to_mount] \<and>
   filter mount_request
     (emitted three_volumes_world (world_of (mount_google_drive example_config three_volumes_world)))
     = [Call (Volume_mount failing_drive_volume)] \<and>
   filter (\<lambda>e. e = Call Main_loop_run)
     (emitted three_volumes_world (world_of (mount_google_drive example_config three_volumes_world)))
     = [Call Main_loop_run] \<and>
   (\<exists>w'. mount_google_drive example_config three_volumes_world = Returned w') \<and>
   find (has_drive_identifier example_config) (volumes hanging_world) = Some hanging_volume \<and>
   on_mount hanging_volume = Never_resolves \<and>
   emitted hanging_world (world_of (mount_google_drive example_config hanging_world))
     = [Log Attempting_to_mount, Call Get_volumes, Call (Volume_mount hanging_volume),
        Call Main_loop_run] \<and>
   (\<exists>w'. mount_google_drive example_config hanging_world = Blocked w')"
proof -
  have f: "find (has_drive_identifier example_config) (volumes three_volumes_world)
             = Some failing_drive_volume"
    by (simp add: three_volumes_world_def usb_no_identifier failing_drive_identifier)
  have r: "on_mount failing_drive_volume \<noteq> Never_resolves" "on_mount failing_drive_volume = Finish_false"
    by (simp_all add: failing_drive_volume_def)
  have g: "find (has_drive_identifier example_config) (volumes hanging_world) = Some hanging_volume"
    by (simp add: hanging_world_def usb_no_identifier hanging_identifier)
  have h: "on_mount hanging_volume = Never_resolves"
    by (simp add: hanging_volume_def)
  from mount_at_most_one_request [of three_volumes_world example_config] f r
  have 1: "emitted three_volumes_world (world_of (mount_google_drive example_config three_volumes_world))
     = [Log Attempting_to_mount, Call Get_volumes, Call (Volume_mount failing_drive_volume),
        Call Main_loop_run, Log Failed_to_mount]"
    "filter mount_request
     (emitted three_volumes_world (world_of (mount_google_drive example_config three_volumes_world)))
     = [Call (Volume_mount failing_drive_volume)]"
    "filter (\<lambda>e. e = Call Main_loop_run)
     (emitted three_volumes_world (world_of (mount_google_drive example_config three_volumes_world)))
     = [Call Main_loop_run]"
    "\<exists>w'. mount_google_drive example_config three_volumes_world = Returned w'"
    by simp_all
  from mount_at_most_one_request [of hanging_world example_config] g h
  have 2: "emitted hanging_world (world_of (mount_google_drive example_config hanging_world))
     = [Log Attempting_to_mount, Call Get_volumes, Call (Volume_mount hanging_volume),
        Call Main_loop_run]"
    "\<exists>w'. mount_google_drive example_config hanging_world = Blocked w'"
    by simp_all
  from f r(1) g h 1 2 show ?thesis by blast
qed

lemma is_drive_available_loop_append:
  "is_drive_available_loop cfg (xs @ ys) \<longleftrightarrow>
     is_drive_available_loop cfg xs \<or> is_drive_available_loop cfg ys"
  by (simp add: is_drive_available_loop_ex)

text \<open>The mounts after a mount attempt that returned.\<close>

lemma mount_google_drive_mounts:
  assumes "mount_google_drive cfg w = Returned w'"
  shows "mounts w' =
     mounts w @ (case find (has_drive_identifier cfg) (volumes w) of
                   None \<Rightarrow> []
                 | Some v \<Rightarrow> if on_mount v = Finish_true then [mount_root v] else [])"
  using assms
  by (auto simp: mount_google_drive_def mount_volumes_closed request_mount_def Let_def emit_def
           split: option.splits mount_resolution.splits)

text \<open>
  C7, as the specification states it, fails when the drive is already mounted: no volume
  matches the account, and the answer is true.
\<close>

theorem mountIfNeeded_true_counterexample:
  "\<not> list_ex (has_drive_identifier example_config) (volumes example_world) \<and>
   map_option fst (mountIfNeeded example_config example_world) = Some True"
  by (simp add: mountIfNeeded_eq mount_google_drive_def example_world_def example_available
        del: is_drive_available_loop.simps)

text \<open>
  C7, amended: \<open>mount_google_drive\<close> returns no value; the boolean of \<open>mountIfNeeded\<close> is the
  answer of the availability query its callers make right after it. It is true exactly
  when the drive was available before the attempt or the first volume with a matching
  identifier was mounted successfully with a root that is a drive URI of the account,
  which is the availability of the drive after the attempt. When no volume matches the
  account, the call returns at once, with no mount request and without running the main
  loop, and the answer is the availability of the drive before the call: false when the
  drive was not available.
\<close>

theorem mountIfNeeded_contract:
  "(\<forall>b w'. mountIfNeeded cfg w = Some (b, w') \<longrightarrow>
      b = (is_drive_available_loop cfg (mounts w) \<or>
           (\<exists>v. find (has_drive_identifier cfg) (volumes w) = Some v \<and>
                on_mount v = Finish_true \<and> is_drive_uri cfg (mount_root v))) \<and>
      b = is_drive_available_loop cfg (mounts w')) \<and>
   (\<not> list_ex (has_drive_identifier cfg) (volumes w) \<longrightarrow>
      (\<exists>w'. mountIfNeeded cfg w = Some (is_drive_available_loop cfg (mounts w), w') \<and>
         Call Main_loop_run \<notin> set (emitted w w') \<and>
         filter mount_request (emitted w w') = [] \<and>
         mounts w' = mounts w))"
proof -
  have a: "b = (is_drive_available_loop cfg (mounts w) \<or>
           (\<exists>v. find (has_drive_identifier cfg) (volumes w) = Some v \<and>
                on_mount v = Finish_true \<and> is_drive_uri cfg (mount_root v))) \<and>
      b = is_drive_available_loop cfg (mounts w')"
    if m: "mountIfNeeded cfg w = Some (b, w')" for b w'
  proof -
    from m obtain w1 where r: "mount_google_drive cfg w = Returned w1"
      and b: "b = is_drive_available_loop cfg (mounts w1)" and w': "mounts w' = mounts w1"
      by (auto simp: mountIfNeeded_eq split: run.splits)
    have "is_drive_available_loop cfg (mounts w1) =
        (is_drive_available_loop cfg (mounts w) \<or>
           (\<exists>v. find (has_drive_identifier cfg) (volumes w) = Some v \<and>
                on_mount v = Finish_true \<and> is_drive_uri cfg (mount_root v)))"
      unfolding mount_google_drive_mounts [OF r] is_drive_available_loop_append
      by (auto simp: is_drive_uri_def split: option.splits)
    with b w' show ?thesis by simp
  qed
  have b: "\<exists>w'. mountIfNeeded cfg w = Some (is_drive_available_loop cfg (mounts w), w') \<and>
         Call Main_loop_run \<notin> set (emitted w w') \<and>
         filter mount_request (emitted w w') = [] \<and>
         mounts w' = mounts w"
    if nv: "\<not> list_ex (has_drive_identifier cfg) (volumes w)"
  proof -
    have "find (has_drive_identifier cfg) (volumes w) = None"
      using nv by (simp add: find_None_iff list_ex_iff)
    then have m: "mount_google_drive cfg w =
        Returned (w\<lparr>trace := trace w @ [Log Attempting_to_mount, Call Get_volumes,
                                          Log No_volume_found]\<rparr>)"
      by (simp add: mount_google_drive_def mount_volumes_closed emit_def)
    show ?thesis by (simp add: mountIfNeeded_eq m emitted_def)
  qed
  from a b show ?thesis by blast
qed

theorem mountIfNeeded_contract_witness:
  "(\<exists>w'. mountIfNeeded example_config mountable_world = Some (True, w') \<and>
      \<not> is_drive_available_loop example_config (mounts mountable_world) \<and>
      find (has_drive_identifier example_config) (volumes mountable_world) = Some drive_volume \<and>
      on_mount drive_volume = Finish_true \<and>
      is_drive_uri example_config (mount_root drive_volume) \<and>
      is_drive_available_loop example_config (mounts w')) \<and>
   \<not> list_ex (has_drive_identifier example_config) (volumes unmounted_world) \<and>
   \<not> is_drive_available_loop example_config (mounts unmounted_world) \<and>
   (\<exists>w'. mountIfNeeded example_config unmounted_world = Some (False, w') \<and>
      Call Main_loop_run \<notin> set (emitted unmounted_world w') \<and>
      filter mount_request (emitted unmounted_world w') = [] \<and>
      mounts w' = mounts unmounted_world)"
proof -
  have f: "find (has_drive_identifier example_config) (volumes mountable_world) = Some drive_volume"
    by (simp add: mountable_world_def usb_no_identifier drive_identifier)
  have dv: "on_mount drive_volume = Finish_true" "mount_root drive_volume = ''google-drive://u@example/''"
    by (simp_all add: drive_volume_def)
  have du: "is_drive_uri example_config (mount_root drive_volume)"
    using example_available by (simp add: dv is_drive_available_loop_ex)
  have nm: "\<not> is_drive_available_loop example_config (mounts mountable_world)"
    by (simp add: mountable_world_def)
  have "mount_google_drive example_config mountable_world \<noteq> Blocked x" for x
    by (simp add: mount_google_drive_def mount_volumes_closed mountable_world_def dv
          usb_no_identifier drive_identifier request_mount_def Let_def)
  moreover have "mount_google_drive example_config mountable_world \<noteq> Raised e x" for e x
    by (simp add: mount_google_drive_def mount_volumes_closed mountable_world_def dv
          usb_no_identifier drive_identifier request_mount_def Let_def)
  ultimately obtain b w' where m: "mountIfNeeded example_config mountable_world = Some (b, w')"
    by (cases "mount_google_drive example_config mountable_world")
       (auto simp: mountIfNeeded_eq)
  from mountIfNeeded_contract [of example_config mountable_world] m
  have "b = (is_drive_available_loop example_config (mounts mountable_world) \<or>
           (\<exists>v. find (has_drive_identifier example_config) (volumes mountable_world) = Some v \<and>
                on_mount v = Finish_true \<and> is_drive_uri example_config (mount_root v)))"
    and bl: "b = is_drive_available_loop example_config (mounts w')"
    by blast+
  with f dv(1) du have b: "b" by simp
  with bl have l: "is_drive_available_loop example_config (mounts w')" by simp
  have m': "mountIfNeeded example_config mountable_world = Some (True, w')"
    using m b by simp
  have na: "\<not> is_drive_available_loop example_config (mounts unmounted_world)"
    by (simp add: unmounted_world_def)
  have nv: "\<not> list_ex (has_drive_identifier example_config) (volumes unmounted_world)"
    by (simp add: unmounted_world_def example_world_def)
  from mountIfNeeded_contract [of example_config unmounted_world] na nv
  have "\<exists>w'. mountIfNeeded example_config unmounted_world = Some (False, w') \<and>
      Call Main_loop_run \<notin> set (emitted unmounted_world w') \<and>
      filter mount_request (emitted unmounted_world w') = [] \<and>
      mounts w' = mounts unmounted_world"
    by simp
  with m' nm f dv(1) du l nv na show ?thesis by blast
qed

section \<open>Runs of the walk\<close>

lemma entered_files_append: "entered_files (xs @ ys) = entered_files xs @ entered_files ys"
  by (induction xs rule: entered_files.induct) simp_all

lemma parent_events_no_entry: "list_all parent_event P \<Longrightarrow> entered_files P = []"
proof (induction P)
  case Nil
  then show ?case by simp
next
  case (Cons e P)
  then have "parent_event e" by simp
  then show ?case using Cons by (cases e rule: parent_event.cases) simp_all
qed

lemma hash_failures_no_entry: "list_all hash_failure f \<Longrightarrow> entered_files f = []"
proof (induction f)
  case Nil
  then show ?case by simp
next
  case (Cons e f)
  then have "hash_failure e" by simp
  then show ?case using Cons by (cases e rule: hash_failure.cases) simp_all
qed

text \<open>
  One call of \<open>sync_file\<close>, however it ends: it extends the trace by its entry, the
  availability query and events that enter no further file; with the drive available and
  a non-empty path it returns, and the drive is still available.
\<close>

lemma sync_file_run:
  "\<exists>w' es. world_of (sync_file cfg p w) = w' \<and>
     trace w' = trace w @ Enter_sync_file p # Call Get_mounts # es \<and>
     entered_files es = [] \<and> local_tree w' = local_tree w \<and>
     (is_drive_available_loop cfg (mounts w) \<and> p \<noteq> [] \<longrightarrow>
        sync_file cfg p w = Returned w' \<and> is_drive_available_loop cfg (mounts w'))"
proof (cases rule: sync_file_cases [of cfg w p])
  case (blocked G M)
  then show ?thesis by (simp add: gate_events_no_entry is_drive_available_eq)
next
  case (no_drive G M w1)
  then show ?thesis
    by (simp add: gate_events_no_entry is_drive_available_eq entered_files_append)
next
  case (raised G M e)
  then show ?thesis by (simp add: gate_events_no_entry)
next
  case (parent_failed G M u pd e)
  then show ?thesis by (simp add: gate_events_no_entry entered_files_append)
next
  case (transfer G M u P D)
  let ?W = "w\<lparr>mounts := M, remote_dirs := D,
                trace := trace w @ Enter_sync_file p # Call Get_mounts # G @ P\<rparr>"
  note ne = gate_events_no_entry [OF transfer(1)] parent_events_no_entry [OF transfer(5)]
  show ?thesis
  proof (cases rule: sync_file_compare_cases [where p = p and u = u and w = ?W])
    case skipped
    then show ?thesis using transfer(2,11) ne by (simp add: entered_files_append)
  next
    case (delete_failed e f1 f2)
    then show ?thesis using transfer(2,11) ne
      by (simp add: entered_files_append hash_failures_no_entry)
  next
    case (replace_failed e f1 f2)
    then show ?thesis using transfer(2,11) ne
      by (simp add: entered_files_append hash_failures_no_entry)
  next
    case (replaced c f1 f2)
    then show ?thesis using transfer(2,11) ne
      by (simp add: entered_files_append hash_failures_no_entry)
  next
    case (create_failed e)
    then show ?thesis using transfer(2,11) ne by (simp add: entered_files_append)
  next
    case (created c)
    then show ?thesis using transfer(2,11) ne by (simp add: entered_files_append)
  qed
qed

lemma path_join_nonempty: "root \<noteq> [] \<Longrightarrow> path_join root name \<noteq> []"
  by (auto simp: path_join_def startswith_def)

lemma sync_files_in_run:
  "\<exists>w' es. world_of (sync_files_in cfg root files w) = w' \<and> trace w' = trace w @ es \<and>
     local_tree w' = local_tree w \<and>
     (is_drive_available_loop cfg (mounts w) \<and> root \<noteq> [] \<longrightarrow>
        sync_files_in cfg root files w = Returned w' \<and>
        is_drive_available_loop cfg (mounts w') \<and>
        entered_files es = map (path_join root) files \<and>
        length files \<le> length (filter (\<lambda>e. e = Call Get_mounts) es))"
proof (induction files arbitrary: w)
  case Nil
  then show ?case by simp
next
  case (Cons name files)
  let ?q = "path_join root name"
  obtain w1 es1 where w1: "world_of (sync_file cfg ?q w) = w1"
    and t1: "trace w1 = trace w @ Enter_sync_file ?q # Call Get_mounts # es1"
    and e1: "entered_files es1 = []" and l1: "local_tree w1 = local_tree w"
    and a1: "is_drive_available_loop cfg (mounts w) \<and> ?q \<noteq> [] \<longrightarrow>
        sync_file cfg ?q w = Returned w1 \<and> is_drive_available_loop cfg (mounts w1)"
    using sync_file_run [of cfg ?q w] by blast
  show ?case
  proof (cases "sync_file cfg ?q w")
    case (Returned x)
    then have x: "x = w1" using w1 by simp
    obtain w2 es2 where w2: "world_of (sync_files_in cfg root files w1) = w2"
      and t2: "trace w2 = trace w1 @ es2" and l2: "local_tree w2 = local_tree w1"
      and a2: "is_drive_available_loop cfg (mounts w1) \<and> root \<noteq> [] \<longrightarrow>
        sync_files_in cfg root files w1 = Returned w2 \<and>
        is_drive_available_loop cfg (mounts w2) \<and>
        entered_files es2 = map (path_join root) files \<and>
        length files \<le> length (filter (\<lambda>e. e = Call Get_mounts) es2)"
      using Cons.IH [of w1] by blast
    have s: "sync_files_in cfg root (name # files) w = sync_files_in cfg root files w1"
      using Returned x by simp
    show ?thesis
    proof (intro exI [of _ w2] exI [of _ "Enter_sync_file ?q # Call Get_mounts # es1 @ es2"] conjI impI)
      show "world_of (sync_files_in cfg root (name # files) w) = w2" using s w2 by simp
      show "trace w2 = trace w @ Enter_sync_file ?q # Call Get_mounts # es1 @ es2"
        using t1 t2 by simp
      show "local_tree w2 = local_tree w" using l1 l2 by simp
    next
      assume h: "is_drive_available_loop cfg (mounts w) \<and> root \<noteq> []"
      then have av1: "is_drive_available_loop cfg (mounts w1)"
        using a1 path_join_nonempty [of root name] by blast
      with h a2 have r2: "sync_files_in cfg root files w1 = Returned w2"
        and av2: "is_drive_available_loop cfg (mounts w2)"
        and en2: "entered_files es2 = map (path_join root) files"
        and c2: "length files \<le> length (filter (\<lambda>e. e = Call Get_mounts) es2)"
        by blast+
      show "sync_files_in cfg root (name # files) w = Returned w2" using s r2 by simp
      show "is_drive_available_loop cfg (mounts w2)" by (rule av2)
      show "entered_files (Enter_sync_file ?q # Call Get_mounts # es1 @ es2)
              = map (path_join root) (name # files)"
        using e1 en2 by (simp add: entered_files_append)
      show "length (name # files)
              \<le> length (filter (\<lambda>e. e = Call Get_mounts)
                          (Enter_sync_file ?q # Call Get_mounts # es1 @ es2))"
        using c2 by simp
    qed
  next
    case (Raised e x)
    then have s: "sync_files_in cfg root (name # files) w = Raised e x" by simp
    have "x = w1" using Raised w1 by simp
    with s t1 l1 a1 Raised path_join_nonempty [of root name] show ?thesis by auto
  next
    case (Blocked x)
    then have s: "sync_files_in cfg root (name # files) w = Blocked x" by simp
    have "x = w1" using Blocked w1 by simp
    with s t1 l1 a1 Blocked path_join_nonempty [of root name] show ?thesis by auto
  qed
qed

lemma walk_files_simps [simp]:
  "walk_files [] = []"
  "walk_files ((root, dirs, files) # rest) = map (path_join root) files @ walk_files rest"
  "walk_files (xs @ ys) = walk_files xs @ walk_files ys"
  by (simp_all add: walk_files_def)

lemma sync_walk_run:
  "\<exists>w' es. world_of (sync_walk cfg walk w) = w' \<and> trace w' = trace w @ es \<and>
     local_tree w' = local_tree w \<and>
     (is_drive_available_loop cfg (mounts w) \<and> (\<forall>x\<in>set walk. fst x \<noteq> []) \<longrightarrow>
        sync_walk cfg walk w = Returned w' \<and>
        is_drive_available_loop cfg (mounts w') \<and>
        entered_files es = walk_files walk \<and>
        length (walk_files walk) \<le> length (filter (\<lambda>e. e = Call Get_mounts) es))"
proof (induction walk arbitrary: w)
  case Nil
  then show ?case by simp
next
  case (Cons triple rest)
  obtain root dirs files where triple: "triple = (root, dirs, files)" by (cases triple) auto
  obtain w1 es1 where w1: "world_of (sync_files_in cfg root files w) = w1"
    and t1: "trace w1 = trace w @ es1" and l1: "local_tree w1 = local_tree w"
    and a1: "is_drive_available_loop cfg (mounts w) \<and> root \<noteq> [] \<longrightarrow>
        sync_files_in cfg root files w = Returned w1 \<and>
        is_drive_available_loop cfg (mounts w1) \<and>
        entered_files es1 = map (path_join root) files \<and>
        length files \<le> length (filter (\<lambda>e. e = Call Get_mounts) es1)"
    using sync_files_in_run [of cfg root files w] by blast
  show ?case
  proof (cases "sync_files_in cfg root files w")
    case (Returned x)
    then have x: "x = w1" using w1 by simp
    obtain w2 es2 where w2: "world_of (sync_walk cfg rest w1) = w2"
      and t2: "trace w2 = trace w1 @ es2" and l2: "local_tree w2 = local_tree w1"
      and a2: "is_drive_available_loop cfg (mounts w1) \<and> (\<forall>x\<in>set rest. fst x \<noteq> []) \<longrightarrow>
        sync_walk cfg rest w1 = Returned w2 \<and>
        is_drive_available_loop cfg (mounts w2) \<and>
        entered_files es2 = walk_files rest \<and>
        length (walk_files rest) \<le> length (filter (\<lambda>e. e = Call Get_mounts) es2)"
      using Cons.IH [of w1] by blast
    have s: "sync_walk cfg (triple # rest) w = sync_walk cfg rest w1"
      using Returned x triple by simp
    show ?thesis
    proof (intro exI [of _ w2] exI [of _ "es1 @ es2"] conjI impI)
      show "world_of (sync_walk cfg (triple # rest) w) = w2" using s w2 by simp
      show "trace w2 = trace w @ es1 @ es2" using t1 t2 by simp
      show "local_tree w2 = local_tree w" using l1 l2 by simp
    next
      assume h: "is_drive_available_loop cfg (mounts w) \<and> (\<forall>x\<in>set (triple # rest). fst x \<noteq> [])"
      then have r: "root \<noteq> []" and rs: "\<forall>x\<in>set rest. fst x \<noteq> []" using triple by auto
      from h r a1 have av1: "is_drive_available_loop cfg (mounts w1)"
        and en1: "entered_files es1 = map (path_join root) files"
        and c1: "length files \<le> length (filter (\<lambda>e. e = Call Get_mounts) es1)"
        by blast+
      from av1 rs a2 have r2: "sync_walk cfg rest w1 = Returned w2"
        and av2: "is_drive_available_loop cfg (mounts w2)"
        and en2: "entered_files es2 = walk_files rest"
        and c2: "length (walk_files rest) \<le> length (filter (\<lambda>e. e = Call Get_mounts) es2)"
        by blast+
      show "sync_walk cfg (triple # rest) w = Returned w2" using s r2 by simp
      show "is_drive_available_loop cfg (mounts w2)" by (rule av2)
      show "entered_files (es1 @ es2) = walk_files (triple # rest)"
        using en1 en2 triple by (simp add: entered_files_append)
      show "length (walk_files (triple # rest))
              \<le> length (filter (\<lambda>e. e = Call Get_mounts) (es1 @ es2))"
        using c1 c2 triple by simp
    qed
  next
    case (Raised e x)
    then have s: "sync_walk cfg (triple # rest) w = Raised e x" using triple by simp
    have "x = w1" using Raised w1 by simp
    with s t1 l1 a1 Raised triple show ?thesis by auto
  next
    case (Blocked x)
    then have s: "sync_walk cfg (triple # rest) w = Blocked x" using triple by simp
    have "x = w1" using Blocked w1 by simp
    with s t1 l1 a1 Blocked triple show ?thesis by auto
  qed
qed

section \<open>Paths of a well-formed tree\<close>









section \<open>The full resync\<close>

lemma os_walk_roots:
  "dirpath \<noteq> [] \<Longrightarrow> \<forall>x\<in>set (os_walk dirpath node). fst x \<noteq> []"
  "dirpath \<noteq> [] \<Longrightarrow> \<forall>x\<in>set (os_walk_entries dirpath entries). fst x \<noteq> []"
  by (induction dirpath node and dirpath entries rule: os_walk_os_walk_entries.induct)
     (auto simp: path_join_nonempty)


lemma sync_all_files_gate_cases:
  obtains
    (proceed) G M where "list_all gate_event G" "is_drive_available_loop cfg M"
      "fst (is_drive_available cfg w) \<or> (\<exists>w1. mountIfNeeded cfg w = Some (True, w1))"
      "sync_all_files cfg w =
         (case sync_walk cfg (os_walk (LOCAL_FOLDER cfg) (local_tree w))
                 (w\<lparr>mounts := M,
                    trace := trace w @ Log Performing_initial_sync # Call Get_mounts # G\<rparr>) of
            Returned w'' \<Rightarrow> Returned (emit (Log Initial_sync_complete) w'')
          | Raised e x \<Rightarrow> Raised e x
          | Blocked x \<Rightarrow> Blocked x)"
  | (abort) G M w1 where "list_all gate_event G" "\<not> fst (is_drive_available cfg w)"
      "mountIfNeeded cfg w = Some (False, w1)"
      "sync_all_files cfg w =
         Returned (w\<lparr>mounts := M,
                     trace := trace w @ Log Performing_initial_sync # Call Get_mounts # G @
                                [Log Mounting_failed_skipping_initial_sync]\<rparr>)"
  | (blocked) G M where "list_all gate_event G" "\<not> fst (is_drive_available cfg w)"
      "mountIfNeeded cfg w = None"
      "sync_all_files cfg w =
         Blocked (w\<lparr>mounts := M,
                    trace := trace w @ Log Performing_initial_sync # Call Get_mounts # G\<rparr>)"
proof (cases "is_drive_available_loop cfg (mounts w)")
  case True
  have "sync_all_files cfg w =
         (case sync_walk cfg (os_walk (LOCAL_FOLDER cfg) (local_tree w))
                 (w\<lparr>mounts := mounts w,
                    trace := trace w @ Log Performing_initial_sync # Call Get_mounts # []\<rparr>) of
            Returned w'' \<Rightarrow> Returned (emit (Log Initial_sync_complete) w'')
          | Raised e x \<Rightarrow> Raised e x
          | Blocked x \<Rightarrow> Blocked x)"
    using True by (simp add: sync_all_files_def is_drive_available_eq emit_def Let_def)
  moreover have "list_all gate_event []" by simp
  moreover have "fst (is_drive_available cfg w)" using True by (simp add: is_drive_available_eq)
  ultimately show ?thesis using True proceed by blast
next
  case False
  then have na: "\<not> fst (is_drive_available cfg w)" by (simp add: is_drive_available_eq)
  obtain G M where G: "list_all gate_event G"
    and eff: "world_of (mount_google_drive cfg w) = w\<lparr>mounts := M, trace := trace w @ G\<rparr>"
    and fr: "\<And>T. mount_google_drive cfg (w\<lparr>trace := T\<rparr>) =
        (case mount_google_drive cfg w of
           Returned x \<Rightarrow> Returned (w\<lparr>mounts := M, trace := T @ G\<rparr>)
         | Raised e x \<Rightarrow> Raised e (w\<lparr>mounts := M, trace := T @ G\<rparr>)
         | Blocked x \<Rightarrow> Blocked (w\<lparr>mounts := M, trace := T @ G\<rparr>))"
    using mount_google_drive_effect [of cfg w] by blast
  let ?T = "trace w @ [Log Performing_initial_sync, Call Get_mounts, Log Drive_not_found]"
  let ?G1 = "Log Drive_not_found # G"
  have G1: "list_all gate_event ?G1" using G by simp
  have start: "sync_all_files cfg w =
      (case mount_google_drive cfg (w\<lparr>trace := ?T\<rparr>) of
         Returned w2 \<Rightarrow>
           (case is_drive_available cfg w2 of
              (True, w3) \<Rightarrow>
                (case sync_walk cfg (os_walk (LOCAL_FOLDER cfg) (local_tree w3)) w3 of
                   Returned w'' \<Rightarrow> Returned (emit (Log Initial_sync_complete) w'')
                 | Raised e x \<Rightarrow> Raised e x
                 | Blocked x \<Rightarrow> Blocked x)
            | (False, w3) \<Rightarrow> Returned (emit (Log Mounting_failed_skipping_initial_sync) w3))
       | Raised e x \<Rightarrow> Raised e x
       | Blocked x \<Rightarrow> Blocked x)"
    using False by (simp add: sync_all_files_def is_drive_available_eq emit_def Let_def)
  show ?thesis
  proof (cases "mount_google_drive cfg w")
    case (Returned x)
    then have x: "x = w\<lparr>mounts := M, trace := trace w @ G\<rparr>" using eff by simp
    have m: "mount_google_drive cfg (w\<lparr>trace := ?T\<rparr>) = Returned (w\<lparr>mounts := M, trace := ?T @ G\<rparr>)"
      using fr [of ?T] Returned by simp
    show ?thesis
    proof (cases "is_drive_available_loop cfg M")
      case True
      have "sync_all_files cfg w =
         (case sync_walk cfg (os_walk (LOCAL_FOLDER cfg) (local_tree w))
                 (w\<lparr>mounts := M,
                    trace := trace w @ Log Performing_initial_sync # Call Get_mounts #
                               (?G1 @ [Call Get_mounts])\<rparr>) of
            Returned w'' \<Rightarrow> Returned (emit (Log Initial_sync_complete) w'')
          | Raised e x \<Rightarrow> Raised e x
          | Blocked x \<Rightarrow> Blocked x)"
        using True by (simp add: start m is_drive_available_eq)
      moreover have "list_all gate_event (?G1 @ [Call Get_mounts])" using G by simp
      moreover have "\<exists>w1. mountIfNeeded cfg w = Some (True, w1)"
        using True Returned x by (simp add: mountIfNeeded_eq)
      ultimately show ?thesis using True proceed by blast
    next
      case nav: False
      have "sync_all_files cfg w =
              Returned (w\<lparr>mounts := M,
                trace := trace w @ Log Performing_initial_sync # Call Get_mounts #
                           (?G1 @ [Call Get_mounts]) @ [Log Mounting_failed_skipping_initial_sync]\<rparr>)"
        using nav by (simp add: start m is_drive_available_eq emit_def)
      moreover have "list_all gate_event (?G1 @ [Call Get_mounts])" using G by simp
      moreover have "\<exists>w1. mountIfNeeded cfg w = Some (False, w1)"
        using nav Returned x by (simp add: mountIfNeeded_eq)
      ultimately show ?thesis using na abort by blast
    qed
  next
    case (Raised e x)
    then have False
      by (simp add: mount_google_drive_def mount_volumes_closed request_mount_def Let_def
               split: option.splits mount_resolution.splits)
    then show ?thesis ..
  next
    case (Blocked x)
    have m: "mount_google_drive cfg (w\<lparr>trace := ?T\<rparr>) = Blocked (w\<lparr>mounts := M, trace := ?T @ G\<rparr>)"
      using fr [of ?T] Blocked by simp
    have "sync_all_files cfg w =
            Blocked (w\<lparr>mounts := M,
                       trace := trace w @ Log Performing_initial_sync # Call Get_mounts # ?G1\<rparr>)"
      by (simp add: start m)
    moreover have "mountIfNeeded cfg w = None" using Blocked by (simp add: mountIfNeeded_eq)
    ultimately show ?thesis using na G1 blocked by blast
  qed
qed

text \<open>The walk of \<open>sync_all_files\<close> behind an open gate.\<close>

lemma sync_all_files_walk:
  assumes root: "LOCAL_FOLDER cfg \<noteq> []"
    and gate: "fst (is_drive_available cfg w) \<or> (\<exists>w1. mountIfNeeded cfg w = Some (True, w1))"
  shows "\<exists>w' G es. sync_all_files cfg w = Returned w' \<and> list_all gate_event G \<and>
           emitted w w' = Log Performing_initial_sync # Call Get_mounts # G @ es @ [Log Initial_sync_complete] \<and>
           entered_files es = walk_files (os_walk (LOCAL_FOLDER cfg) (local_tree w)) \<and>
           length (walk_files (os_walk (LOCAL_FOLDER cfg) (local_tree w)))
             \<le> length (filter (\<lambda>e. e = Call Get_mounts) es)"
proof (cases rule: sync_all_files_gate_cases [of cfg w])
  case (proceed G M)
  let ?W = "w\<lparr>mounts := M, trace := trace w @ Log Performing_initial_sync # Call Get_mounts # G\<rparr>"
  let ?walk = "os_walk (LOCAL_FOLDER cfg) (local_tree w)"
  obtain w2 es where w2: "world_of (sync_walk cfg ?walk ?W) = w2"
    and t2: "trace w2 = trace ?W @ es"
    and a2: "is_drive_available_loop cfg (mounts ?W) \<and> (\<forall>x\<in>set ?walk. fst x \<noteq> []) \<longrightarrow>
        sync_walk cfg ?walk ?W = Returned w2 \<and>
        is_drive_available_loop cfg (mounts w2) \<and>
        entered_files es = walk_files ?walk \<and>
        length (walk_files ?walk) \<le> length (filter (\<lambda>e. e = Call Get_mounts) es)"
    using sync_walk_run [of cfg ?walk ?W] by blast
  have "is_drive_available_loop cfg (mounts ?W)" using proceed(2) by simp
  with a2 os_walk_roots(1) [OF root, of "local_tree w"]
  have r: "sync_walk cfg ?walk ?W = Returned w2"
    and en: "entered_files es = walk_files ?walk"
    and c: "length (walk_files ?walk) \<le> length (filter (\<lambda>e. e = Call Get_mounts) es)"
    by blast+
  have "sync_all_files cfg w = Returned (emit (Log Initial_sync_complete) w2)"
    using proceed(4) r by simp
  moreover have "emitted w (emit (Log Initial_sync_complete) w2)
      = Log Performing_initial_sync # Call Get_mounts # G @ es @ [Log Initial_sync_complete]"
    using t2 by (simp add: emitted_def)
  ultimately show ?thesis using proceed(1) en c by blast
next
  case (abort G M w1)
  with gate show ?thesis by simp
next
  case (blocked G M)
  with gate show ?thesis by simp
qed


text \<open>
  C9, amended: \<open>sync_all_files\<close> makes the availability query first, before any file is
  entered; if the drive is unavailable and the mount attempt leaves it so, the pass
  returns without entering \<open>sync_file\<close> for any file and without a call on the remote
  store; and when the gate passes, every invocation of \<open>sync_file\<close> repeats the
  availability query, so a pass makes more queries than it syncs files.
\<close>

theorem sync_all_files_checks:
  "(\<exists>es. emitted w (world_of (sync_all_files cfg w))
           = Log Performing_initial_sync # Call Get_mounts # es) \<and>
   (\<not> fst (is_drive_available cfg w) \<and> (\<exists>w1. mountIfNeeded cfg w = Some (False, w1)) \<longrightarrow>
      (\<exists>w'. sync_all_files cfg w = Returned w' \<and> entered_files (emitted w w') = [] \<and>
         filter remote_call (emitted w w') = [])) \<and>
   (LOCAL_FOLDER cfg \<noteq> [] \<and>
    (fst (is_drive_available cfg w) \<or> (\<exists>w1. mountIfNeeded cfg w = Some (True, w1))) \<longrightarrow>
      length (entered_files (emitted w (world_of (sync_all_files cfg w))))
        < length (filter (\<lambda>e. e = Call Get_mounts) (emitted w (world_of (sync_all_files cfg w)))))"
proof (intro conjI impI)
  show "\<exists>es. emitted w (world_of (sync_all_files cfg w))
           = Log Performing_initial_sync # Call Get_mounts # es"
  proof (cases rule: sync_all_files_gate_cases [of cfg w])
    case (proceed G M)
    let ?W = "w\<lparr>mounts := M, trace := trace w @ Log Performing_initial_sync # Call Get_mounts # G\<rparr>"
    let ?walk = "os_walk (LOCAL_FOLDER cfg) (local_tree w)"
    obtain w2 es where w2: "world_of (sync_walk cfg ?walk ?W) = w2" and t2: "trace w2 = trace ?W @ es"
      using sync_walk_run [of cfg ?walk ?W] by blast
    have "\<exists>es'. trace (world_of (sync_all_files cfg w)) = trace w2 @ es'"
      using proceed(4) w2 by (cases "sync_walk cfg ?walk ?W") (auto simp: emit_def)
    then show ?thesis using t2 by (auto simp: emitted_def)
  next
    case (abort G M w1)
    then show ?thesis by simp
  next
    case (blocked G M)
    then show ?thesis by simp
  qed
next
  assume h: "\<not> fst (is_drive_available cfg w) \<and> (\<exists>w1. mountIfNeeded cfg w = Some (False, w1))"
  show "\<exists>w'. sync_all_files cfg w = Returned w' \<and> entered_files (emitted w w') = [] \<and>
         filter remote_call (emitted w w') = []"
  proof (cases rule: sync_all_files_gate_cases [of cfg w])
    case (proceed G M)
    with h show ?thesis by auto
  next
    case (abort G M w1)
    then show ?thesis
      by (simp add: gate_events_no_entry gate_events_no_remote entered_files_append)
  next
    case (blocked G M)
    with h show ?thesis by auto
  qed
next
  assume h: "LOCAL_FOLDER cfg \<noteq> [] \<and>
    (fst (is_drive_available cfg w) \<or> (\<exists>w1. mountIfNeeded cfg w = Some (True, w1)))"
  then obtain w' G es where r: "sync_all_files cfg w = Returned w'" and G: "list_all gate_event G"
    and e: "emitted w w' = Log Performing_initial_sync # Call Get_mounts # G @ es @ [Log Initial_sync_complete]"
    and en: "entered_files es = walk_files (os_walk (LOCAL_FOLDER cfg) (local_tree w))"
    and c: "length (walk_files (os_walk (LOCAL_FOLDER cfg) (local_tree w)))
             \<le> length (filter (\<lambda>e. e = Call Get_mounts) es)"
    using sync_all_files_walk [of cfg w] by blast
  have "entered_files (emitted w w') = entered_files es"
    using e gate_events_no_entry [OF G] by (simp add: entered_files_append)
  moreover have "length (filter (\<lambda>e. e = Call Get_mounts) es)
      < length (filter (\<lambda>e. e = Call Get_mounts) (emitted w w'))"
    using e by simp
  ultimately show "length (entered_files (emitted w (world_of (sync_all_files cfg w))))
        < length (filter (\<lambda>e. e = Call Get_mounts) (emitted w (world_of (sync_all_files cfg w))))"
    using r en c by simp
qed

section \<open>The full resync at the example\<close>

lemma example_local_folder: "LOCAL_FOLDER example_config = ''/home/u/docs''"
  by (simp add: example_config_def)

lemma example_paths:
  "path_join ''/home/u/docs'' ''a'' = ''/home/u/docs/a''"
  "path_join ''/home/u/docs/a'' ''b.txt'' = ''/home/u/docs/a/b.txt''"
  by code_simp+


lemma example_regular_files:
  "regular_files (LOCAL_FOLDER example_config) (local_tree example_world)
     = [''/home/u/docs/a/b.txt'']"
  by (simp add: example_local_folder example_world_def example_paths regular_files_def)

lemma example_all_run:
  "emitted example_world (world_of (sync_all_files example_config example_world)) =
     [Log Performing_initial_sync, Call Get_mounts,
      Enter_sync_file ''/home/u/docs/a/b.txt'', Call Get_mounts,
      Call (Query_exists ''google-drive://u@example/sync/docs/a''),
      Call (Make_directory_with_parents ''google-drive://u@example/sync/docs/a''),
      Log (Created_parent_directory ''google-drive://u@example/sync/docs/a''),
      Call (Query_exists ''google-drive://u@example/sync/docs/a/b.txt''),
      Call (Copy ''/home/u/docs/a/b.txt'' ''google-drive://u@example/sync/docs/a/b.txt''),
      Log (Synced ''/home/u/docs/a/b.txt'' ''google-drive://u@example/sync/docs/a/b.txt''),
      Log Initial_sync_complete]"
  by (simp add: sync_all_files_def run_defs example_world_def example_target example_parent
        example_available example_ancestors example_local_folder example_paths emitted_def
        del: is_drive_available_loop.simps)




text \<open>
  C9, as the specification states it, fails on the example: a pass over one file makes
  two availability queries, the second one inside \<open>sync_file\<close>.
\<close>

theorem sync_all_files_rechecks_counterexample:
  "entered_files (emitted example_world
      (world_of (sync_all_files example_config example_world))) = [''/home/u/docs/a/b.txt''] \<and>
   length (filter (\<lambda>e. e = Call Get_mounts)
      (emitted example_world (world_of (sync_all_files example_config example_world)))) = 2"
  unfolding example_all_run by simp

theorem sync_all_files_checks_witness:
  "\<not> fst (is_drive_available example_config unmounted_world) \<and>
   (\<exists>w1. mountIfNeeded example_config unmounted_world = Some (False, w1)) \<and>
   (\<exists>w'. sync_all_files example_config unmounted_world = Returned w' \<and>
      entered_files (emitted unmounted_world w') = [] \<and>
      filter remote_call (emitted unmounted_world w') = []) \<and>
   LOCAL_FOLDER example_config \<noteq> [] \<and> fst (is_drive_available example_config example_world) \<and>
   length (entered_files (emitted example_world
             (world_of (sync_all_files example_config example_world))))
     < length (filter (\<lambda>e. e = Call Get_mounts)
         (emitted example_world (world_of (sync_all_files example_config example_world))))"
proof -
  have na: "\<not> fst (is_drive_available example_config unmounted_world)"
    by (simp add: is_drive_available_eq unmounted_world_def)
  have m: "\<exists>w1. mountIfNeeded example_config unmounted_world = Some (False, w1)"
    by (simp add: mountIfNeeded_eq mount_google_drive_def unmounted_world_def example_world_def)
  have root: "LOCAL_FOLDER example_config \<noteq> []" by (simp add: example_local_folder)
  have a: "fst (is_drive_available example_config example_world)"
    by (simp add: is_drive_available_eq example_world_def example_available
          del: is_drive_available_loop.simps)
  from sync_all_files_checks [of unmounted_world example_config]
       sync_all_files_checks [of example_world example_config] na m root a
  show ?thesis by blast
qed

section \<open>The remote target of every call\<close>

text \<open>
  C5, as the specification states it, fails at an absolute remote root: with remote root
  \<open>/sync/docs\<close> the target is not scheme, account, separator, remote root, separator
  and relative path, because the leading separator of the remote root is stripped.
\<close>

theorem remote_target_absolute_root_counterexample:
  "drive_file_path
     \<lparr>LOCAL_FOLDER = ''/home/u/docs'', GOOGLE_DRIVE_FOLDER = ''/sync/docs'',
      DRIVE_USER = ''u@example''\<rparr> ''/'' ''/home/u/docs/a/b.txt''
     = Inr ''google-drive://u@example/sync/docs/a/b.txt''
   \<and> relpath ''/'' ''/home/u/docs/a/b.txt'' ''/home/u/docs'' = Inr ''a/b.txt''
   \<and> ''google-drive://u@example/sync/docs/a/b.txt''
       \<noteq> GOOGLE_DRIVE_PREFIX @ ''u@example'' @ ''/'' @ ''/sync/docs'' @ ''/'' @ ''a/b.txt''"
  by code_simp

lemma gate_event_remote: "list_all gate_event G \<Longrightarrow> e \<in> set G \<Longrightarrow> \<not> remote_call e"
  by (auto simp: list_all_iff dest: gate_event_not_remote)

lemma hash_failure_remote: "list_all hash_failure f \<Longrightarrow> e \<in> set f \<Longrightarrow> \<not> remote_call e"
proof -
  assume "list_all hash_failure f" "e \<in> set f"
  then have "hash_failure e" by (simp add: list_all_iff)
  then show ?thesis by (cases e rule: hash_failure.cases) simp_all
qed

lemma parent_event_remote:
  "parent_event e \<Longrightarrow> remote_call e \<Longrightarrow>
   \<exists>v. e = Call (Query_exists v) \<or> e = Call (Make_directory_with_parents v)"
  by (cases e rule: parent_event.cases) simp_all

text \<open>Every call of \<open>sync_file\<close> on the remote store addresses the target or its parent.\<close>

lemma sync_file_addresses_target:
  assumes e: "e \<in> set (emitted w (world_of (sync_file cfg p w)))" and r: "remote_call e"
  shows "\<exists>dest. drive_file_path cfg (cwd w) p = Inr dest \<and>
           (e = Call (Query_exists dest) \<or> e = Call (Read_remote dest) \<or> e = Call (Delete dest) \<or>
            e = Call (Copy p dest) \<or>
            (\<exists>pd. get_parent dest = Some pd \<and>
               (e = Call (Query_exists pd) \<or> e = Call (Make_directory_with_parents pd))))"
proof (cases rule: sync_file_cases [of cfg w p])
  case (blocked G M)
  with e r gate_event_remote [of G e] show ?thesis by auto
next
  case (no_drive G M w1)
  with e r gate_event_remote [of G e] show ?thesis by auto
next
  case (raised G M x)
  with e r gate_event_remote [of G e] show ?thesis by auto
next
  case (parent_failed G M u pd x)
  with e r gate_event_remote [of G e] show ?thesis by auto
next
  case (transfer G M u P D)
  let ?W = "w\<lparr>mounts := M, remote_dirs := D,
                trace := trace w @ Enter_sync_file p # Call Get_mounts # G @ P\<rparr>"
  have inG: "e \<notin> set G" using r gate_event_remote [OF transfer(1), of e] by blast
  have inP: "\<exists>pd. get_parent u = Some pd \<and>
               (e = Call (Query_exists pd) \<or> e = Call (Make_directory_with_parents pd))"
    if "e \<in> set P"
  proof -
    have "parent_event e" using that transfer(5) by (simp add: list_all_iff)
    then obtain v where "e = Call (Query_exists v) \<or> e = Call (Make_directory_with_parents v)"
      using parent_event_remote r by blast
    with that transfer(10) show ?thesis by blast
  qed
  show ?thesis
  proof (cases rule: sync_file_compare_cases [where p = p and u = u and w = ?W])
    case skipped
    with e r inG inP transfer(4,11) show ?thesis by auto
  next
    case (delete_failed x f1 f2)
    with e r inG inP transfer(4,11) hash_failure_remote [of f1 e] hash_failure_remote [of f2 e]
    show ?thesis by auto
  next
    case (replace_failed x f1 f2)
    with e r inG inP transfer(4,11) hash_failure_remote [of f1 e] hash_failure_remote [of f2 e]
    show ?thesis by auto
  next
    case (replaced c f1 f2)
    with e r inG inP transfer(4,11) hash_failure_remote [of f1 e] hash_failure_remote [of f2 e]
    show ?thesis by auto
  next
    case (create_failed x)
    with e r inG inP transfer(4,11) show ?thesis by auto
  next
    case (created c)
    with e r inG inP transfer(4,11) show ?thesis by auto
  qed
qed

text \<open>
  C5, amended: for every non-empty local path the target of \<open>sync_file\<close> is the provider
  scheme, the account, one separator, the remote root without its leading separators,
  one separator unless the remote root is empty or ends with one, and the path relative
  to the local root, which never begins with a separator. For a non-empty remote root
  that neither begins nor ends with a separator this is the scheme of the
  specification. Every call an invocation of \<open>sync_file\<close> makes on the remote store
  addresses this target (existence query, read, delete, copy of the local file) or its
  parent directory (existence query, creation).
\<close>

theorem remote_target_address:
  assumes "file_path \<noteq> []"
  shows "\<exists>rel dest. relpath (cwd w) file_path (LOCAL_FOLDER cfg) = Inr rel \<and>
           rel \<noteq> [] \<and> hd rel \<noteq> CHR ''/'' \<and>
           drive_file_path cfg (cwd w) file_path = Inr dest \<and>
           dest = GOOGLE_DRIVE_PREFIX @ DRIVE_USER cfg @ ''/'' @
                  lstrip CHR ''/'' (GOOGLE_DRIVE_FOLDER cfg) @
                  (if GOOGLE_DRIVE_FOLDER cfg = [] \<or> last (GOOGLE_DRIVE_FOLDER cfg) = CHR ''/''
                   then [] else ''/'') @ rel \<and>
           (GOOGLE_DRIVE_FOLDER cfg \<noteq> [] \<and> hd (GOOGLE_DRIVE_FOLDER cfg) \<noteq> CHR ''/'' \<and>
            last (GOOGLE_DRIVE_FOLDER cfg) \<noteq> CHR ''/'' \<longrightarrow>
              dest = GOOGLE_DRIVE_PREFIX @ DRIVE_USER cfg @ ''/'' @ GOOGLE_DRIVE_FOLDER cfg @ ''/'' @ rel) \<and>
           (\<forall>e\<in>set (emitted w (world_of (sync_file cfg file_path w))). remote_call e \<longrightarrow>
              e = Call (Query_exists dest) \<or> e = Call (Read_remote dest) \<or>
              e = Call (Delete dest) \<or> e = Call (Copy file_path dest) \<or>
              (\<exists>pd. get_parent dest = Some pd \<and>
                 (e = Call (Query_exists pd) \<or> e = Call (Make_directory_with_parents pd))))"
proof -
  obtain rel where rel: "relpath (cwd w) file_path (LOCAL_FOLDER cfg) = Inr rel"
      "rel \<noteq> []" "hd rel \<noteq> CHR ''/''"
    and d: "drive_file_path cfg (cwd w) file_path =
             Inr (GOOGLE_DRIVE_PREFIX @ DRIVE_USER cfg @ ''/'' @
                  lstrip CHR ''/'' (GOOGLE_DRIVE_FOLDER cfg) @
                  (if GOOGLE_DRIVE_FOLDER cfg = [] \<or> last (GOOGLE_DRIVE_FOLDER cfg) = CHR ''/''
                   then [] else ''/'') @ rel)"
    and n: "GOOGLE_DRIVE_FOLDER cfg \<noteq> [] \<and> hd (GOOGLE_DRIVE_FOLDER cfg) \<noteq> CHR ''/'' \<and>
            last (GOOGLE_DRIVE_FOLDER cfg) \<noteq> CHR ''/'' \<longrightarrow>
            drive_file_path cfg (cwd w) file_path =
              Inr (GOOGLE_DRIVE_PREFIX @ DRIVE_USER cfg @ ''/'' @ GOOGLE_DRIVE_FOLDER cfg @ ''/'' @ rel)"
    using drive_file_path_shape [OF assms, of "cwd w" cfg] by blast
  let ?dest = "GOOGLE_DRIVE_PREFIX @ DRIVE_USER cfg @ ''/'' @
                  lstrip CHR ''/'' (GOOGLE_DRIVE_FOLDER cfg) @
                  (if GOOGLE_DRIVE_FOLDER cfg = [] \<or> last (GOOGLE_DRIVE_FOLDER cfg) = CHR ''/''
                   then [] else ''/'') @ rel"
  have calls: "e = Call (Query_exists ?dest) \<or> e = Call (Read_remote ?dest) \<or>
              e = Call (Delete ?dest) \<or> e = Call (Copy file_path ?dest) \<or>
              (\<exists>pd. get_parent ?dest = Some pd \<and>
                 (e = Call (Query_exists pd) \<or> e = Call (Make_directory_with_parents pd)))"
    if "e \<in> set (emitted w (world_of (sync_file cfg file_path w)))" "remote_call e" for e
    using sync_file_addresses_target [OF that] d by auto
  have nice: "?dest = GOOGLE_DRIVE_PREFIX @ DRIVE_USER cfg @ ''/'' @ GOOGLE_DRIVE_FOLDER cfg @ ''/'' @ rel"
    if "GOOGLE_DRIVE_FOLDER cfg \<noteq> [] \<and> hd (GOOGLE_DRIVE_FOLDER cfg) \<noteq> CHR ''/'' \<and>
            last (GOOGLE_DRIVE_FOLDER cfg) \<noteq> CHR ''/''"
    using that n d by simp
  show ?thesis
    apply (rule exI [of _ rel])
    apply (rule exI [of _ ?dest])
    using rel d nice calls by blast
qed

theorem remote_target_address_witness:
  "''/home/u/docs/a/b.txt'' \<noteq> [] \<and>
   drive_file_path example_config (cwd example_world) ''/home/u/docs/a/b.txt''
     = Inr ''google-drive://u@example/sync/docs/a/b.txt'' \<and>
   Call (Copy ''/home/u/docs/a/b.txt'' ''google-drive://u@example/sync/docs/a/b.txt'')
     \<in> set (emitted example_world
              (world_of (sync_file example_config ''/home/u/docs/a/b.txt'' example_world)))"
proof -
  have ne: "''/home/u/docs/a/b.txt'' \<noteq> []" by simp
  obtain rel dest where
    r: "relpath (cwd example_world) ''/home/u/docs/a/b.txt'' (LOCAL_FOLDER example_config) = Inr rel"
    and d: "drive_file_path example_config (cwd example_world) ''/home/u/docs/a/b.txt'' = Inr dest"
    and n: "GOOGLE_DRIVE_FOLDER example_config \<noteq> [] \<and>
        hd (GOOGLE_DRIVE_FOLDER example_config) \<noteq> CHR ''/'' \<and>
        last (GOOGLE_DRIVE_FOLDER example_config) \<noteq> CHR ''/'' \<longrightarrow>
          dest = GOOGLE_DRIVE_PREFIX @ DRIVE_USER example_config @ ''/'' @
                 GOOGLE_DRIVE_FOLDER example_config @ ''/'' @ rel"
    and c: "\<forall>e\<in>set (emitted example_world
                (world_of (sync_file example_config ''/home/u/docs/a/b.txt'' example_world))).
            remote_call e \<longrightarrow>
              e = Call (Query_exists dest) \<or> e = Call (Read_remote dest) \<or>
              e = Call (Delete dest) \<or> e = Call (Copy ''/home/u/docs/a/b.txt'' dest) \<or>
              (\<exists>pd. get_parent dest = Some pd \<and>
                 (e = Call (Query_exists pd) \<or> e = Call (Make_directory_with_parents pd)))"
    using remote_target_address [OF ne, of example_world example_config] by blast
  have "relpath ''/'' ''/home/u/docs/a/b.txt'' ''/home/u/docs'' = Inr ''a/b.txt''"
    by code_simp
  with r have rel: "rel = ''a/b.txt''"
    by (simp add: example_world_def example_local_folder)
  have dest: "dest = ''google-drive://u@example/sync/docs/a/b.txt''"
    using n rel by (simp add: example_config_def GOOGLE_DRIVE_PREFIX_def)
  have "Call (Copy ''/home/u/docs/a/b.txt'' ''google-drive://u@example/sync/docs/a/b.txt'')
     \<in> set (emitted example_world
              (world_of (sync_file example_config ''/home/u/docs/a/b.txt'' example_world)))"
    unfolding example_run by (simp add: emitted_def example_world_def)
  with ne d dest show ?thesis by simp
qed

end
